theory Spec2Isabelle
  imports Complex_Main "HOL-Library.Log_Nat"
begin

section \<open>JavaScript numbers\<close>

text \<open>
  The calculator computes with the JavaScript \<^verbatim>\<open>number\<close> type: IEEE 754 binary64.
  A number is not-a-number, an infinity with its sign, or a finite value given by its sign
  bit (\<open>True\<close> is negative) and its magnitude, a non-negative rational that binary64
  represents exactly. Both zeros exist: \<open>Finite False 0\<close> and \<open>Finite True 0\<close>.
\<close>

datatype number = NaN | Infinity bool | Finite bool rat

text \<open>\<open>floorLog b a\<close> is the integer \<open>e\<close> with \<open>b ^ e \<le> a < b ^ (e + 1)\<close>, for \<open>a > 0\<close>.\<close>

definition floorLog :: "nat \<Rightarrow> rat \<Rightarrow> int" where
  "floorLog b a =
     (if 1 \<le> a then int (floorlog b (nat \<lfloor>a\<rfloor>)) - 1
      else - int (floorlog b (nat (\<lceil>1 / a\<rceil> - 1))))"

text \<open>Round to the nearest integer, a tie to the even one.\<close>

definition roundHalfEven :: "rat \<Rightarrow> int" where
  "roundHalfEven x =
     (let f = \<lfloor>x\<rfloor>; d = x - of_int f
      in if d < 1 / 2 then f
         else if 1 / 2 < d then f + 1
         else if even f then f else f + 1)"

text \<open>
  Rounding of a positive real to binary64, round-to-nearest-even: 53 bits of precision,
  the least exponent of a unit in the last place is \<open>-1074\<close> (subnormal numbers), and a
  result of \<open>2 ^ 1024\<close> or more overflows (\<open>None\<close>).
\<close>

definition roundToBinary64 :: "rat \<Rightarrow> rat option" where
  "roundToBinary64 a =
     (let p = max (floorLog 2 a - 52) (- 1074);
          r = of_int (roundHalfEven (a / 2 powi p)) * 2 powi p
      in if 2 ^ 1024 \<le> r then None else Some r)"

text \<open>The number with sign bit \<open>s\<close> nearest to the magnitude \<open>a \<ge> 0\<close>.\<close>

definition fl :: "bool \<Rightarrow> rat \<Rightarrow> number" where
  "fl s a =
     (if a = 0 then Finite s 0
      else case roundToBinary64 a of None \<Rightarrow> Infinity s | Some r \<Rightarrow> Finite s r)"

definition signedValue :: "bool \<Rightarrow> rat \<Rightarrow> rat" where
  "signedValue s m = (if s then - m else m)"

text \<open>The number nearest to a real of either sign (the sign of an exact zero is positive).\<close>

definition flSigned :: "rat \<Rightarrow> number" where
  "flSigned r = fl (r < 0) \<bar>r\<bar>"

subsection \<open>Arithmetic operators\<close>

fun num_neg :: "number \<Rightarrow> number" where
  "num_neg NaN = NaN"
| "num_neg (Infinity s) = Infinity (\<not> s)"
| "num_neg (Finite s a) = Finite (\<not> s) a"

fun num_add :: "number \<Rightarrow> number \<Rightarrow> number" where
  "num_add NaN y = NaN"
| "num_add x NaN = NaN"
| "num_add (Infinity s) (Infinity t) = (if s = t then Infinity s else NaN)"
| "num_add (Infinity s) (Finite t b) = Infinity s"
| "num_add (Finite s a) (Infinity t) = Infinity t"
| "num_add (Finite s a) (Finite t b) =
     (let r = signedValue s a + signedValue t b
      in if r = 0 then Finite (s \<and> t) 0 else flSigned r)"

definition num_sub :: "number \<Rightarrow> number \<Rightarrow> number" where
  "num_sub x y = num_add x (num_neg y)"

fun num_mul :: "number \<Rightarrow> number \<Rightarrow> number" where
  "num_mul NaN y = NaN"
| "num_mul x NaN = NaN"
| "num_mul (Infinity s) (Infinity t) = Infinity (s \<noteq> t)"
| "num_mul (Infinity s) (Finite t b) = (if b = 0 then NaN else Infinity (s \<noteq> t))"
| "num_mul (Finite s a) (Infinity t) = (if a = 0 then NaN else Infinity (s \<noteq> t))"
| "num_mul (Finite s a) (Finite t b) = fl (s \<noteq> t) (a * b)"

fun num_div :: "number \<Rightarrow> number \<Rightarrow> number" where
  "num_div NaN y = NaN"
| "num_div x NaN = NaN"
| "num_div (Infinity s) (Infinity t) = NaN"
| "num_div (Infinity s) (Finite t b) = Infinity (s \<noteq> t)"
| "num_div (Finite s a) (Infinity t) = Finite (s \<noteq> t) 0"
| "num_div (Finite s a) (Finite t b) =
     (if b = 0 then (if a = 0 then NaN else Infinity (s \<noteq> t))
      else fl (s \<noteq> t) (a / b))"

subsection \<open>Comparisons and predicates\<close>

text \<open>\<^verbatim>\<open>x < y\<close>: false as soon as one side is not-a-number; the two zeros are equal.\<close>

fun num_lt :: "number \<Rightarrow> number \<Rightarrow> bool" where
  "num_lt (Finite s a) (Finite t b) = (signedValue s a < signedValue t b)"
| "num_lt (Infinity s) (Infinity t) = (s \<and> \<not> t)"
| "num_lt (Infinity s) (Finite t b) = s"
| "num_lt (Finite s a) (Infinity t) = (\<not> t)"
| "num_lt x y = False"

text \<open>\<^verbatim>\<open>x >= y\<close> and \<^verbatim>\<open>x === y\<close> on numbers.\<close>

definition num_ge :: "number \<Rightarrow> number \<Rightarrow> bool" where
  "num_ge x y = (x \<noteq> NaN \<and> y \<noteq> NaN \<and> \<not> num_lt x y)"

definition strictEq :: "number \<Rightarrow> number \<Rightarrow> bool" where
  "strictEq x y = (x \<noteq> NaN \<and> y \<noteq> NaN \<and> \<not> num_lt x y \<and> \<not> num_lt y x)"

fun Number_isFinite :: "number \<Rightarrow> bool" where
  "Number_isFinite (Finite s a) = True"
| "Number_isFinite x = False"

fun Number_isInteger :: "number \<Rightarrow> bool" where
  "Number_isInteger (Finite s a) = (of_int \<lfloor>a\<rfloor> = a)"
| "Number_isInteger x = False"

text \<open>The truth value of a number (\<^verbatim>\<open>x || 0\<close> keeps \<open>x\<close> when it is truthy).\<close>

fun truthy :: "number \<Rightarrow> bool" where
  "truthy NaN = False"
| "truthy (Infinity s) = True"
| "truthy (Finite s a) = (a \<noteq> 0)"

subsection \<open>The Math object\<close>

fun Math_abs :: "number \<Rightarrow> number" where
  "Math_abs NaN = NaN"
| "Math_abs (Infinity s) = Infinity False"
| "Math_abs (Finite s a) = Finite False a"

text \<open>
  \<^verbatim>\<open>Math.round\<close>: the nearest integer, a tie going to the one closer to plus infinity; a
  zero result keeps the sign of the argument.
\<close>

fun Math_round :: "number \<Rightarrow> number" where
  "Math_round NaN = NaN"
| "Math_round (Infinity s) = Infinity s"
| "Math_round (Finite s a) =
     (let r = \<lfloor>signedValue s a + 1 / 2\<rfloor>
      in if r = 0 then Finite s 0 else Finite (r < 0) (of_int \<bar>r\<bar>))"

text \<open>The integer square root, and \<^verbatim>\<open>Math.sqrt\<close> as the correctly rounded square root.\<close>

function isqrt :: "nat \<Rightarrow> nat" where
  "isqrt n =
     (if n < 2 then n
      else (let r = 2 * isqrt (n div 4) in if (r + 1) * (r + 1) \<le> n then r + 1 else r))"
  by pat_completeness auto
termination
  by (relation "measure id") auto

declare isqrt.simps [simp del]

text \<open>
  The magnitude is scaled by a power of four that makes it an integer of at least 107 bits;
  the integer root then has at least 54 bits, so when the root is inexact the half added to it
  lies on the same side of every rounding boundary as the real root.
\<close>

fun Math_sqrt :: "number \<Rightarrow> number" where
  "Math_sqrt NaN = NaN"
| "Math_sqrt (Infinity s) = (if s then NaN else Infinity False)"
| "Math_sqrt (Finite s a) =
     (if a = 0 then Finite s 0
      else if s then NaN
      else (let t = nat ((107 - floorLog 2 a) div 2);
                n = nat \<lfloor>a * 4 ^ t\<rfloor>;
                r = isqrt n;
                q = (if of_nat (r * r) = a * 4 ^ t then of_nat r else of_nat r + 1 / 2)
            in fl False (q / 2 ^ t)))"

subsection \<open>Constants of the program\<close>

definition num :: "nat \<Rightarrow> number" where
  "num n = Finite False (of_nat n)"

definition Number_EPSILON :: number where
  "Number_EPSILON = Finite False (1 / 2 ^ 52)"

definition num_1e12 :: number where
  "num_1e12 = Finite False (10 ^ 12)"

definition num_1e_9 :: number where
  "num_1e_9 = fl False (1 / 10 ^ 9)"


section \<open>Strings and conversions\<close>

text \<open>
  A string is the list of its characters; every string the calculator builds is ASCII, except
  the infinity sign of \<^verbatim>\<open>toLocaleString\<close>, which is written as its three UTF-8 bytes.
\<close>

definition isDigit :: "char \<Rightarrow> bool" where
  "isDigit c = (c \<in> set ''0123456789'')"

definition digitValue :: "char \<Rightarrow> nat" where
  "digitValue c = of_char c - 48"

definition digitChar :: "nat \<Rightarrow> char" where
  "digitChar d = ''0123456789'' ! (d mod 10)"

definition decimalValue :: "string \<Rightarrow> nat" where
  "decimalValue ds = foldl (\<lambda>v c. 10 * v + digitValue c) 0 ds"

function digitsOf :: "nat \<Rightarrow> string" where
  "digitsOf n = (if n < 10 then [digitChar n] else digitsOf (n div 10) @ [digitChar (n mod 10)])"
  by pat_completeness auto
termination
  by (relation "measure id") auto

declare digitsOf.simps [simp del]

text \<open>\<^verbatim>\<open>str.split(c)\<close>, \<^verbatim>\<open>str.replace(/,/g, '')\<close> and \<^verbatim>\<open>str.replace(/\+/, '')\<close>.\<close>

fun split :: "char \<Rightarrow> string \<Rightarrow> string list" where
  "split c [] = [[]]"
| "split c (x # xs) =
     (if x = c then [] # split c xs
      else (case split c xs of [] \<Rightarrow> [[x]] | p # ps \<Rightarrow> (x # p) # ps))"

definition removeCommas :: "string \<Rightarrow> string" where
  "removeCommas str = filter (\<lambda>c. c \<noteq> CHR '','') str"

definition removeFirstPlus :: "string \<Rightarrow> string" where
  "removeFirstPlus str = remove1 (CHR ''+'') str"

text \<open>
  \<^verbatim>\<open>str.replace(/\u202F/g, ',')\<close>: the narrow no-break space U+202F is the bytes
  \<open>E2 80 AF\<close>.
\<close>

fun replaceNarrowSpace :: "string \<Rightarrow> string" where
  "replaceNarrowSpace (a # b # c # xs) =
     (if a = CHR 0xE2 \<and> b = CHR 0x80 \<and> c = CHR 0xAF then CHR '','' # replaceNarrowSpace xs
      else a # replaceNarrowSpace (b # c # xs))"
| "replaceNarrowSpace xs = xs"

subsection \<open>Number to string\<close>

text \<open>
  \<^verbatim>\<open>Number::toString\<close> (ECMA-262): the digits \<open>s\<close> and the decimal exponent \<open>n\<close> of the
  shortest decimal \<open>s \<times> 10 ^ (n - k)\<close>, \<open>k\<close> the number of digits of \<open>s\<close>, that rounds to the
  magnitude \<open>a\<close>; among several of that length, the one closest to \<open>a\<close>, the even one on a
  tie. For each length \<open>k\<close> only the two multiples of \<open>10 ^ (n0 - k)\<close> around \<open>a\<close> can round
  to it, \<open>n0\<close> being the decimal exponent of \<open>a\<close> itself. Seventeen digits identify every
  binary64 value.
\<close>

function shortestFrom :: "rat \<Rightarrow> int \<Rightarrow> nat \<Rightarrow> nat \<times> int" where
  "shortestFrom a n0 k =
     (let scale = 10 powi (n0 - int k);
          lo = nat \<lfloor>a / scale\<rfloor>;
          hi = lo + 1;
          okLo = (fl False (of_nat lo * scale) = Finite False a);
          okHi = (fl False (of_nat hi * scale) = Finite False a);
          dLo = a - of_nat lo * scale;
          dHi = of_nat hi * scale - a
      in if 17 \<le> k \<or> okLo \<or> okHi then
           (let s = (if okLo \<and> \<not> okHi then lo
                     else if okHi \<and> \<not> okLo then hi
                     else if dLo < dHi then lo
                     else if dHi < dLo then hi
                     else if even lo then lo else hi)
            in if s = 10 ^ k then (10 ^ (k - 1), n0 + 1) else (s, n0))
         else shortestFrom a n0 (k + 1))"
  by pat_completeness auto
termination
  by (relation "measure (\<lambda>(a, n0, k). 17 - k)") auto

declare shortestFrom.simps [simp del]

definition shortestDigits :: "rat \<Rightarrow> nat \<times> int" where
  "shortestDigits a = shortestFrom a (floorLog 10 a + 1) 1"

definition signPrefix :: "bool \<Rightarrow> string" where
  "signPrefix s = (if s then ''-'' else [])"

definition exponentText :: "int \<Rightarrow> string" where
  "exponentText e = (if e < 0 then ''-'' else ''+'') @ digitsOf (nat \<bar>e\<bar>)"

definition renderDigits :: "string \<Rightarrow> int \<Rightarrow> string" where
  "renderDigits ds n =
     (let k = int (length ds)
      in if k \<le> n \<and> n \<le> 21 then ds @ replicate (nat (n - k)) (CHR ''0'')
         else if 0 < n \<and> n \<le> 21 then take (nat n) ds @ ''.'' @ drop (nat n) ds
         else if - 6 < n \<and> n \<le> 0 then ''0.'' @ replicate (nat (- n)) (CHR ''0'') @ ds
         else if k = 1 then ds @ ''e'' @ exponentText (n - 1)
         else take 1 ds @ ''.'' @ drop 1 ds @ ''e'' @ exponentText (n - 1))"

fun Number_toString :: "number \<Rightarrow> string" where
  "Number_toString NaN = ''NaN''"
| "Number_toString (Infinity s) = signPrefix s @ ''Infinity''"
| "Number_toString (Finite s a) =
     (if a = 0 then ''0''
      else (case shortestDigits a of (m, n) \<Rightarrow> signPrefix s @ renderDigits (digitsOf m) n))"

text \<open>
  \<^verbatim>\<open>toExponential(6)\<close>: seven significant digits of the exact value, a tie going to the
  larger magnitude.
\<close>

fun toExponential6 :: "number \<Rightarrow> string" where
  "toExponential6 NaN = ''NaN''"
| "toExponential6 (Infinity s) = signPrefix s @ ''Infinity''"
| "toExponential6 (Finite s a) =
     (if a = 0 then ''0.000000e+0''
      else (let e0 = floorLog 10 a;
                n = nat \<lfloor>a / 10 powi (e0 - 6) + 1 / 2\<rfloor>;
                m = (if n = 10 ^ 7 then 10 ^ 6 else n);
                e = (if n = 10 ^ 7 then e0 + 1 else e0);
                ds = digitsOf m
            in signPrefix s @ take 1 ds @ ''.'' @ drop 1 ds @ ''e'' @ exponentText e))"

text \<open>
  \<^verbatim>\<open>toLocaleString('en-US')\<close>: at most three fraction digits, rounded half away from zero,
  trailing zeros dropped, the integer digits in groups of three.
\<close>

function groupThousands :: "string \<Rightarrow> string" where
  "groupThousands ds =
     (if length ds \<le> 3 then ds
      else groupThousands (take (length ds - 3) ds) @ '','' @ drop (length ds - 3) ds)"
  by pat_completeness auto
termination
  by (relation "measure length") auto

declare groupThousands.simps [simp del]

definition fractionText :: "nat \<Rightarrow> string" where
  "fractionText f = rev (dropWhile (\<lambda>c. c = CHR ''0'') (rev (drop 1 (digitsOf (1000 + f)))))"

fun toLocaleString :: "number \<Rightarrow> string" where
  "toLocaleString NaN = ''NaN''"
| "toLocaleString (Infinity s) = signPrefix s @ [CHR 0xE2, CHR 0x88, CHR 0x9E]"
| "toLocaleString (Finite s a) =
     (let t = nat \<lfloor>a * 1000 + 1 / 2\<rfloor>; f = t mod 1000
      in signPrefix s @ groupThousands (digitsOf (t div 1000))
         @ (if f = 0 then [] else ''.'' @ fractionText f))"

subsection \<open>String to number\<close>

definition isWhiteSpace :: "char \<Rightarrow> bool" where
  "isWhiteSpace c = (c \<in> {CHR 0x09, CHR 0x0A, CHR 0x0B, CHR 0x0C, CHR 0x0D, CHR 0x20})"

definition trim :: "string \<Rightarrow> string" where
  "trim str = rev (dropWhile isWhiteSpace (rev (dropWhile isWhiteSpace str)))"

definition isSignChar :: "char \<Rightarrow> bool" where
  "isSignChar c = (c = CHR ''+'' \<or> c = CHR ''-'')"

text \<open>\<^verbatim>\<open>parseInt(str, 10)\<close>: leading white space, a sign, then the longest run of digits.\<close>

definition parseInt10 :: "string \<Rightarrow> number" where
  "parseInt10 str =
     (let t = dropWhile isWhiteSpace str;
          u = (case t of [] \<Rightarrow> [] | c # r \<Rightarrow> if isSignChar c then r else t);
          z = takeWhile isDigit u
      in if z = [] then NaN else fl (take 1 t = ''-'') (of_nat (decimalValue z)))"

text \<open>
  \<^verbatim>\<open>Number(str)\<close>: the string as a numeric literal. The exponent part of a decimal literal,
  \<open>None\<close> when the text is not one.
\<close>

definition exponentPart :: "string \<Rightarrow> int option" where
  "exponentPart r =
     (case r of
        [] \<Rightarrow> Some 0
      | c # t \<Rightarrow>
          if c = CHR ''e'' \<or> c = CHR ''E'' then
            (let u = (case t of [] \<Rightarrow> [] | d # v \<Rightarrow> if isSignChar d then v else t)
             in if u \<noteq> [] \<and> list_all isDigit u
                then Some (if take 1 t = ''-'' then - int (decimalValue u) else int (decimalValue u))
                else None)
          else None)"

definition unsignedDecimal :: "string \<Rightarrow> rat option" where
  "unsignedDecimal u =
     (let ip = takeWhile isDigit u;
          r1 = dropWhile isDigit u;
          fp = (if take 1 r1 = ''.'' then takeWhile isDigit (drop 1 r1) else []);
          r2 = (if take 1 r1 = ''.'' then dropWhile isDigit (drop 1 r1) else r1)
      in if ip = [] \<and> fp = [] then None
         else (case exponentPart r2 of
                 None \<Rightarrow> None
               | Some e \<Rightarrow> Some (of_nat (decimalValue (ip @ fp)) * 10 powi (e - int (length fp)))))"

definition radixDigit :: "char \<Rightarrow> nat option" where
  "radixDigit c =
     (let n = of_char c :: nat
      in if 48 \<le> n \<and> n \<le> 57 then Some (n - 48)
         else if 97 \<le> n \<and> n \<le> 102 then Some (n - 87)
         else if 65 \<le> n \<and> n \<le> 70 then Some (n - 55)
         else None)"

definition radixValue :: "nat \<Rightarrow> string \<Rightarrow> nat option" where
  "radixValue b ds =
     (if ds \<noteq> [] \<and> list_all (\<lambda>c. case radixDigit c of None \<Rightarrow> False | Some d \<Rightarrow> d < b) ds
      then Some (foldl (\<lambda>v c. b * v + (case radixDigit c of None \<Rightarrow> 0 | Some d \<Rightarrow> d)) 0 ds)
      else None)"

definition nonDecimalLiteral :: "string \<Rightarrow> nat option" where
  "nonDecimalLiteral t =
     (if take 2 t = ''0x'' \<or> take 2 t = ''0X'' then radixValue 16 (drop 2 t)
      else if take 2 t = ''0o'' \<or> take 2 t = ''0O'' then radixValue 8 (drop 2 t)
      else if take 2 t = ''0b'' \<or> take 2 t = ''0B'' then radixValue 2 (drop 2 t)
      else None)"

definition StringToNumber :: "string \<Rightarrow> number" where
  "StringToNumber str =
     (let t = trim str
      in if t = [] then Finite False 0
         else (case nonDecimalLiteral t of
                 Some n \<Rightarrow> fl False (of_nat n)
               | None \<Rightarrow>
                   (let neg = (take 1 t = ''-'');
                        u = (case t of [] \<Rightarrow> [] | c # r \<Rightarrow> if isSignChar c then r else t)
                    in if u = ''Infinity'' then Infinity neg
                       else (case unsignedDecimal u of
                               None \<Rightarrow> NaN
                             | Some q \<Rightarrow> fl neg q))))"

section \<open>The calculator\<close>

subsection \<open>Formatting and parsing\<close>

definition formatNumber :: "number \<Rightarrow> string" where
  "formatNumber v =
     (if \<not> Number_isFinite v then ''Cannot divide by zero''
      else (let absValue = Math_abs v
            in if \<not> strictEq absValue (num 0)
                  \<and> (num_ge absValue num_1e12 \<or> num_lt absValue num_1e_9)
               then removeFirstPlus (toExponential6 v)
               else (let parts = split (CHR ''.'') (Number_toString v);
                         integerPart = (case parts of [] \<Rightarrow> ''undefined'' | p # ps \<Rightarrow> p);
                         decimalPart = (case parts of p # d # ps \<Rightarrow> Some d | _ \<Rightarrow> None);
                         formattedInteger = replaceNarrowSpace (toLocaleString (parseInt10 integerPart))
                     in case decimalPart of
                          None \<Rightarrow> formattedInteger
                        | Some d \<Rightarrow>
                            if d = [] then formattedInteger
                            else formattedInteger @ ''.'' @ d)))"

definition parseDisplayValue :: "string \<Rightarrow> number" where
  "parseDisplayValue displayValue =
     (if displayValue = ''Cannot divide by zero'' then NaN
      else StringToNumber (removeCommas displayValue))"

text \<open>The regular expression \<^verbatim>\<open>/^-?\d+(\.\d+)?$/\<close> on the text without its commas.\<close>

definition isNumericEntry :: "string \<Rightarrow> bool" where
  "isNumericEntry str =
     (let v = removeCommas str;
          u = (if take 1 v = ''-'' then drop 1 v else v);
          ip = takeWhile isDigit u;
          r = dropWhile isDigit u
      in ip \<noteq> [] \<and> (r = [] \<or> (take 1 r = ''.'' \<and> drop 1 r \<noteq> [] \<and> list_all isDigit (drop 1 r))))"

subsection \<open>State\<close>

datatype Operator = Add | Subtract | Multiply | Divide

record MemoryEntry =
  entry_id :: string
  entry_value :: number

text \<open>
  The identifier of a new memory entry is built from the clock and a random number; it is an
  argument here.
\<close>

definition createMemoryEntry :: "string \<Rightarrow> number \<Rightarrow> MemoryEntry" where
  "createMemoryEntry freshId v = \<lparr>entry_id = freshId, entry_value = v\<rparr>"

record state =
  displayValue :: string
  waitingForOperand :: bool
  pendingOperator :: "Operator option"
  storedValue :: "number option"
  memoryEntries :: "MemoryEntry list"
  memoryExpanded :: bool

definition initialState :: state where
  "initialState =
     \<lparr>displayValue = ''0'', waitingForOperand = False, pendingOperator = None,
      storedValue = None, memoryEntries = [], memoryExpanded = False\<rparr>"

subsection \<open>Handlers\<close>

definition handleDigitPress :: "string \<Rightarrow> state \<Rightarrow> state" where
  "handleDigitPress digit s =
     (let prev = displayValue s
      in if \<not> isNumericEntry prev \<or> waitingForOperand s
         then s\<lparr>displayValue := digit, waitingForOperand := False\<rparr>
         else if prev = ''0'' then s\<lparr>displayValue := digit\<rparr>
         else s\<lparr>displayValue := prev @ digit\<rparr>)"

definition handleDecimalPress :: "state \<Rightarrow> state" where
  "handleDecimalPress s =
     (let prev = displayValue s
      in if \<not> isNumericEntry prev then s\<lparr>displayValue := ''0.'', waitingForOperand := False\<rparr>
         else if waitingForOperand s then s\<lparr>displayValue := ''0.'', waitingForOperand := False\<rparr>
         else if CHR ''.'' \<in> set prev then s
         else s\<lparr>displayValue := prev @ ''.''\<rparr>)"

fun performOperation :: "Operator \<Rightarrow> number \<Rightarrow> number \<Rightarrow> number" where
  "performOperation Add left right = num_add left right"
| "performOperation Subtract left right = num_sub left right"
| "performOperation Multiply left right = num_mul left right"
| "performOperation Divide left right =
     (if strictEq right (num 0) then Infinity False else num_div left right)"

definition roundedValue :: "number \<Rightarrow> number" where
  "roundedValue v = num_div (Math_round (num_mul (num_add v Number_EPSILON) num_1e12)) num_1e12"

definition commitValue :: "number \<Rightarrow> state \<Rightarrow> state" where
  "commitValue v s =
     (if \<not> Number_isFinite v
      then s\<lparr>displayValue := ''Cannot divide by zero'', storedValue := None,
               pendingOperator := None, waitingForOperand := False\<rparr>
      else s\<lparr>displayValue := formatNumber (roundedValue v)\<rparr>)"

definition handleOperatorPress :: "Operator \<Rightarrow> state \<Rightarrow> state" where
  "handleOperatorPress operator s =
     (let currentValue = parseDisplayValue (displayValue s)
      in if \<not> Number_isFinite currentValue then s
         else (case (storedValue s, pendingOperator s) of
                 (Some stored, Some pending) \<Rightarrow>
                   if \<not> waitingForOperand s then
                     (let computed = performOperation pending stored currentValue
                      in if \<not> Number_isFinite computed then commitValue computed s
                         else s\<lparr>storedValue := Some computed,
                                 displayValue := formatNumber computed,
                                 pendingOperator := Some operator,
                                 waitingForOperand := True\<rparr>)
                   else s\<lparr>pendingOperator := Some operator, waitingForOperand := True\<rparr>
               | _ \<Rightarrow>
                   s\<lparr>storedValue := Some currentValue, pendingOperator := Some operator,
                     waitingForOperand := True\<rparr>))"

definition handleEqualsPress :: "state \<Rightarrow> state" where
  "handleEqualsPress s =
     (case (pendingOperator s, storedValue s) of
        (Some pending, Some stored) \<Rightarrow>
          (let currentValue = parseDisplayValue (displayValue s)
           in if \<not> Number_isFinite currentValue then s
              else (let result = performOperation pending stored currentValue;
                        s1 = commitValue result s;
                        s2 = (if Number_isFinite result then s1\<lparr>storedValue := Some result\<rparr> else s1)
                    in s2\<lparr>waitingForOperand := True\<rparr>))
      | _ \<Rightarrow> s)"

definition handlePercent :: "state \<Rightarrow> state" where
  "handlePercent s =
     (let currentValue = parseDisplayValue (displayValue s)
      in if \<not> Number_isFinite currentValue then s
         else (let percentage =
                     (case (storedValue s, pendingOperator s) of
                        (Some stored, Some pending) \<Rightarrow> num_div (num_mul stored currentValue) (num 100)
                      | _ \<Rightarrow> num_div currentValue (num 100))
               in (commitValue percentage s)\<lparr>waitingForOperand := True\<rparr>))"

datatype UnaryCommand = PlusMinus | OneOverX | XSquared | SqrtX

definition handleUnaryCommand :: "UnaryCommand \<Rightarrow> state \<Rightarrow> state" where
  "handleUnaryCommand command s =
     (let currentValue = parseDisplayValue (displayValue s)
      in if \<not> Number_isFinite currentValue then s
         else (case command of
                 PlusMinus \<Rightarrow> commitValue (num_neg currentValue) s
               | OneOverX \<Rightarrow>
                   if strictEq currentValue (num 0) then commitValue (Infinity False) s
                   else commitValue (num_div (num 1) currentValue) s
               | XSquared \<Rightarrow> commitValue (num_mul currentValue currentValue) s
               | SqrtX \<Rightarrow>
                   if num_lt currentValue (num 0)
                   then s\<lparr>displayValue := ''Invalid input'', storedValue := None,
                            pendingOperator := None, waitingForOperand := False\<rparr>
                   else commitValue (Math_sqrt currentValue) s))"

definition handleClearEntry :: "state \<Rightarrow> state" where
  "handleClearEntry s = s\<lparr>displayValue := ''0'', waitingForOperand := True\<rparr>"

definition handleClearAll :: "state \<Rightarrow> state" where
  "handleClearAll s =
     s\<lparr>displayValue := ''0'', storedValue := None, pendingOperator := None,
       waitingForOperand := False\<rparr>"

definition handleBackspace :: "state \<Rightarrow> state" where
  "handleBackspace s =
     (let prev = displayValue s
      in if \<not> isNumericEntry prev then s\<lparr>displayValue := ''0''\<rparr>
         else if length prev \<le> 1 then s\<lparr>displayValue := ''0''\<rparr>
         else (let next = butlast prev
               in s\<lparr>displayValue := (if next = ''-'' \<or> next = [] then ''0'' else next)\<rparr>))"

datatype Command = CmdEquals | CmdPercent | CmdCE | CmdC | CmdBackspace | CmdUnary UnaryCommand

fun handleCommand :: "Command \<Rightarrow> state \<Rightarrow> state" where
  "handleCommand CmdEquals s = handleEqualsPress s"
| "handleCommand CmdPercent s = handlePercent s"
| "handleCommand CmdCE s = handleClearEntry s"
| "handleCommand CmdC s = handleClearAll s"
| "handleCommand CmdBackspace s = handleBackspace s"
| "handleCommand (CmdUnary c) s = handleUnaryCommand c s"

datatype MemoryAction = MC | MR | MPlus | MMinus | MS | Mv

definition orZero :: "number \<Rightarrow> number" where
  "orZero x = (if truthy x then x else num 0)"

definition handleMemoryAction :: "MemoryAction \<Rightarrow> string \<Rightarrow> state \<Rightarrow> state" where
  "handleMemoryAction action freshId s =
     (let numericDisplay = parseDisplayValue (displayValue s)
      in case action of
           MC \<Rightarrow> s\<lparr>memoryEntries := [], memoryExpanded := False\<rparr>
         | MR \<Rightarrow>
             (case memoryEntries s of
                [] \<Rightarrow> s
              | first # rest \<Rightarrow> (commitValue (entry_value first) s)\<lparr>waitingForOperand := True\<rparr>)
         | MPlus \<Rightarrow>
             (case memoryEntries s of
                [] \<Rightarrow> s\<lparr>memoryEntries := [createMemoryEntry freshId (orZero numericDisplay)]\<rparr>
              | first # rest \<Rightarrow>
                  s\<lparr>memoryEntries :=
                      first\<lparr>entry_value := num_add (entry_value first) (orZero numericDisplay)\<rparr> # rest\<rparr>)
         | MMinus \<Rightarrow>
             (case memoryEntries s of
                [] \<Rightarrow> s\<lparr>memoryEntries := [createMemoryEntry freshId (num_neg (orZero numericDisplay))]\<rparr>
              | first # rest \<Rightarrow>
                  s\<lparr>memoryEntries :=
                      first\<lparr>entry_value := num_sub (entry_value first) (orZero numericDisplay)\<rparr> # rest\<rparr>)
         | MS \<Rightarrow>
             s\<lparr>memoryEntries := createMemoryEntry freshId (orZero numericDisplay) # memoryEntries s\<rparr>
         | Mv \<Rightarrow> s\<lparr>memoryExpanded := (\<not> memoryExpanded s)\<rparr>)"

text \<open>The text on the screen, computed from \<open>displayValue\<close>.\<close>

definition formattedDisplay :: "string \<Rightarrow> string" where
  "formattedDisplay dv =
     (if dv = ''Cannot divide by zero'' \<or> dv = ''Invalid input'' then dv
      else (let numericValue = parseDisplayValue dv
            in if \<not> Number_isFinite numericValue then dv
               else if Number_isInteger numericValue then formatNumber numericValue
               else (let parts = split (CHR ''.'') dv;
                         integerPart = (case parts of [] \<Rightarrow> ''undefined'' | p # ps \<Rightarrow> p);
                         decimalPart = (case parts of p # d # ps \<Rightarrow> d | _ \<Rightarrow> []);
                         sanitizedInteger = removeCommas integerPart;
                         formattedInteger = toLocaleString (StringToNumber sanitizedInteger)
                     in formattedInteger @ ''.'' @ decimalPart)))"

subsection \<open>Buttons and action sequences\<close>

datatype digit = D0 | D1 | D2 | D3 | D4 | D5 | D6 | D7 | D8 | D9

fun label :: "digit \<Rightarrow> string" where
  "label D0 = ''0''" | "label D1 = ''1''" | "label D2 = ''2''" | "label D3 = ''3''"
| "label D4 = ''4''" | "label D5 = ''5''" | "label D6 = ''6''" | "label D7 = ''7''"
| "label D8 = ''8''" | "label D9 = ''9''"

datatype Action =
    Digit digit | Decimal | Operator Operator | Equals | Percent
  | ClearEntry | ClearAll | Backspace
  | Negate | Reciprocal | Square | SquareRoot
  | Memory MemoryAction string

fun handleButtonPress :: "Action \<Rightarrow> state \<Rightarrow> state" where
  "handleButtonPress (Digit d) s = handleDigitPress (label d) s"
| "handleButtonPress Decimal s = handleDecimalPress s"
| "handleButtonPress (Operator operator) s = handleOperatorPress operator s"
| "handleButtonPress Equals s = handleCommand CmdEquals s"
| "handleButtonPress Percent s = handleCommand CmdPercent s"
| "handleButtonPress ClearEntry s = handleCommand CmdCE s"
| "handleButtonPress ClearAll s = handleCommand CmdC s"
| "handleButtonPress Backspace s = handleCommand CmdBackspace s"
| "handleButtonPress Negate s = handleCommand (CmdUnary PlusMinus) s"
| "handleButtonPress Reciprocal s = handleCommand (CmdUnary OneOverX) s"
| "handleButtonPress Square s = handleCommand (CmdUnary XSquared) s"
| "handleButtonPress SquareRoot s = handleCommand (CmdUnary SqrtX) s"
| "handleButtonPress (Memory action freshId) s = handleMemoryAction action freshId s"

fun run :: "Action list \<Rightarrow> state \<Rightarrow> state" where
  "run [] s = s"
| "run (a # as) s = run as (handleButtonPress a s)"

declare run.simps [simp del]

definition display :: "state \<Rightarrow> string" where
  "display s = formattedDisplay (displayValue s)"

inductive reachable :: "state \<Rightarrow> bool" where
  reachable_initial: "reachable initialState"
| reachable_step: "reachable s \<Longrightarrow> reachable (handleButtonPress a s)"


subsection \<open>States and texts that the properties below speak about\<close>

text \<open>The state after \<open>5 \<div> 0 =\<close>.\<close>

definition divByZeroState :: state where
  "divByZeroState = run [Digit D5, Operator Divide, Digit D0, Equals] initialState"

text \<open>
  The committed entry as the specification words it: the scaled value rounded half away from
  zero.
\<close>

definition roundHalfAwayFromZero :: "number \<Rightarrow> number" where
  "roundHalfAwayFromZero x =
     (case x of
        Finite s a \<Rightarrow> Finite s (of_int \<lfloor>a + 1 / 2\<rfloor>)
      | _ \<Rightarrow> x)"

definition committedEntrySpec :: "number \<Rightarrow> string" where
  "committedEntrySpec v =
     formatNumber
       (num_div (roundHalfAwayFromZero (num_mul (num_add v Number_EPSILON) num_1e12)) num_1e12)"

text \<open>
  Two large values, the binary64 numbers nearest to \<open>1e300\<close> and \<open>1e160\<close>, and two states
  reached by typing them: the state after \<open>1e300 \<times> 1 =\<close>, and the state after \<open>5 +\<close> and
  the 161 digits of \<open>1e160\<close>.
\<close>

definition double_1e300 :: rat where
  "double_1e300 = 6724873095247260 * 2 ^ 944"


definition overflowState :: state where
  "overflowState =
     run (Digit D1 # replicate 300 (Digit D0) @ [Operator Multiply, Digit D1, Equals]) initialState"


text \<open>
  The entry as the specification describes it: an error sentinel, or an optional minus sign,
  digits, and at most one decimal point with optional digits after it.
\<close>

definition specNumberText :: "string \<Rightarrow> bool" where
  "specNumberText str =
     (let u = (if take 1 str = ''-'' then drop 1 str else str);
          ip = takeWhile isDigit u;
          r = dropWhile isDigit u
      in ip \<noteq> [] \<and> (r = [] \<or> (take 1 r = ''.'' \<and> list_all isDigit (drop 1 r))))"

definition specEntry :: "string \<Rightarrow> bool" where
  "specEntry str =
     (str = ''Cannot divide by zero'' \<or> str = ''Invalid input'' \<or> specNumberText str)"

text \<open>
  The entries that the code builds: an optional minus sign, a digit, further digits and grouping
  commas, then optionally a decimal point and digits, then optionally an exponent: the letter
  \<open>e\<close>, an optional minus sign and at least one digit. The text is read from left to right,
  the phase telling which part has been reached.
\<close>

datatype phase = Start | AfterSign | IntPart | FracPart | ExpMark | ExpSign | ExpDigits

fun advance :: "phase \<Rightarrow> char \<Rightarrow> phase option" where
  "advance Start c =
     (if c = CHR ''-'' then Some AfterSign else if isDigit c then Some IntPart else None)"
| "advance AfterSign c = (if isDigit c then Some IntPart else None)"
| "advance IntPart c =
     (if isDigit c \<or> c = CHR '','' then Some IntPart
      else if c = CHR ''.'' then Some FracPart else None)"
| "advance FracPart c =
     (if isDigit c then Some FracPart else if c = CHR ''e'' then Some ExpMark else None)"
| "advance ExpMark c =
     (if c = CHR ''-'' then Some ExpSign else if isDigit c then Some ExpDigits else None)"
| "advance ExpSign c = (if isDigit c then Some ExpDigits else None)"
| "advance ExpDigits c = (if isDigit c then Some ExpDigits else None)"

fun scan :: "phase \<Rightarrow> string \<Rightarrow> phase option" where
  "scan p [] = Some p"
| "scan p (c # cs) = (case advance p c of None \<Rightarrow> None | Some q \<Rightarrow> scan q cs)"

definition numberText :: "string \<Rightarrow> bool" where
  "numberText str = (scan Start str \<in> {Some IntPart, Some FracPart, Some ExpDigits})"

definition entryShape :: "string \<Rightarrow> bool" where
  "entryShape str =
     (str = ''Cannot divide by zero'' \<or> str = ''Invalid input'' \<or> numberText str)"

section \<open>Facts about the number model\<close>

subsection \<open>Integer logarithms\<close>

lemma floorLog_bounds_ge1:
  fixes a :: rat
  assumes b: "1 < b" and a: "1 \<le> a"
  shows "of_nat b powi floorLog b a \<le> a \<and> a < of_nat b powi (floorLog b a + 1)"
proof -
  define N where "N = nat \<lfloor>a\<rfloor>"
  have N: "0 < N" using a by (simp add: N_def)
  have fl0: "0 \<le> \<lfloor>a\<rfloor>" using a by simp
  have Ni: "(of_nat N :: rat) = of_int \<lfloor>a\<rfloor>"
    using fl0 by (simp add: N_def)
  have Nle: "of_nat N \<le> a" "a < of_nat N + 1"
    unfolding Ni by linarith+
  define f where "f = floorlog b N"
  have fb: "b ^ (f - 1) \<le> N" "N < b ^ f"
    using floorlog_bounds[OF N b] by (simp_all add: f_def)
  have f0: "0 < f" using N b by (simp add: f_def floorlog_def)
  have e: "floorLog b a = int (f - 1)"
    using a f0 by (simp add: floorLog_def f_def N_def)
  have e1: "floorLog b a + 1 = int f"
    using e f0 by simp
  have "(of_nat b :: rat) ^ (f - 1) \<le> of_nat N"
    using fb(1) by (metis of_nat_le_iff of_nat_power)
  hence "of_nat b ^ (f - 1) \<le> a"
    using Nle(1) by (rule order_trans)
  hence 1: "of_nat b powi floorLog b a \<le> a"
    unfolding e power_int_of_nat .
  have "Suc N \<le> b ^ f" using fb(2) by simp
  hence "(of_nat (Suc N) :: rat) \<le> of_nat b ^ f"
    by (metis of_nat_le_iff of_nat_power)
  hence "a < of_nat b ^ f"
    using Nle(2) by simp
  hence 2: "a < of_nat b powi (floorLog b a + 1)"
    unfolding e1 power_int_of_nat .
  from 1 2 show ?thesis by simp
qed

lemma floorLog_bounds_lt1:
  fixes a :: rat
  assumes b: "1 < b" and a: "0 < a" "a < 1"
  shows "of_nat b powi floorLog b a \<le> a \<and> a < of_nat b powi (floorLog b a + 1)"
proof -
  define M where "M = nat (\<lceil>1 / a\<rceil> - 1)"
  have inv: "1 < 1 / a" using a by (simp add: field_simps)
  hence c2: "2 \<le> \<lceil>1 / a\<rceil>" by linarith
  have M: "0 < M" unfolding M_def using c2 by linarith
  have Mi: "int M = \<lceil>1 / a\<rceil> - 1" unfolding M_def using c2 by linarith
  have Mlt: "of_nat M < 1 / a"
  proof -
    have "of_int (\<lceil>1 / a\<rceil> - 1) < 1 / a" by linarith
    thus ?thesis using Mi by (metis of_int_of_nat_eq)
  qed
  have Mge: "1 / a \<le> of_nat M + 1"
  proof -
    have "1 / a \<le> of_int \<lceil>1 / a\<rceil>" by linarith
    also have "\<dots> = of_int (int M) + 1" using Mi by simp
    finally show ?thesis by simp
  qed
  define f where "f = floorlog b M"
  have fb: "b ^ (f - 1) \<le> M" "M < b ^ f"
    using floorlog_bounds[OF M b] by (simp_all add: f_def)
  have f0: "0 < f" using M b by (simp add: f_def floorlog_def)
  have e: "floorLog b a = - int f"
    using a by (simp add: floorLog_def f_def M_def)
  have bpos: "(0::rat) < of_nat b" using b by simp
  have "Suc M \<le> b ^ f" using fb(2) by simp
  hence "(of_nat (Suc M) :: rat) \<le> of_nat b ^ f"
    by (metis of_nat_le_iff of_nat_power)
  hence "of_nat M + 1 \<le> (of_nat b :: rat) ^ f" by simp
  hence "1 / a \<le> of_nat b ^ f" using Mge by (rule order_trans[rotated])
  hence "1 \<le> a * of_nat b ^ f" using a by (simp add: field_simps)
  hence 1: "of_nat b powi floorLog b a \<le> a"
    using bpos by (simp add: e power_int_minus field_simps)
  have "(of_nat b :: rat) ^ (f - 1) \<le> of_nat M"
    using fb(1) by (metis of_nat_le_iff of_nat_power)
  hence "of_nat b ^ (f - 1) < 1 / a" using Mlt by (rule le_less_trans)
  hence lt: "a * of_nat b ^ (f - 1) < 1" using a by (simp add: field_simps)
  have e1: "floorLog b a + 1 = - int (f - 1)" using e f0 by simp
  have 2: "a < of_nat b powi (floorLog b a + 1)"
    unfolding e1 using bpos lt by (simp add: power_int_minus field_simps)
  from 1 2 show ?thesis by simp
qed

lemma floorLog_bounds:
  fixes a :: rat
  assumes "1 < b" "0 < a"
  shows "of_nat b powi floorLog b a \<le> a" "a < of_nat b powi (floorLog b a + 1)"
  using floorLog_bounds_ge1[of b a] floorLog_bounds_lt1[of b a] assms
  by (cases "1 \<le> a"; simp)+

lemma floorLog_unique:
  fixes a :: rat
  assumes b: "1 < b" and lo: "of_nat b powi e \<le> a" and hi: "a < of_nat b powi (e + 1)"
  shows "floorLog b a = e"
proof -
  have b1: "(1::rat) < of_nat b" using b by simp
  have "(0::rat) < of_nat b powi e" using b1 by simp
  hence a: "0 < a" using lo by linarith
  note B = floorLog_bounds[OF b a]
  have "of_nat b powi e < (of_nat b :: rat) powi (floorLog b a + 1)"
    using lo B(2) by linarith
  hence 1: "e < floorLog b a + 1"
    using b1 power_int_increasing[of "floorLog b a + 1" e "of_nat b :: rat"]
    by (cases "e < floorLog b a + 1") auto
  have "of_nat b powi floorLog b a < (of_nat b :: rat) powi (e + 1)"
    using hi B(1) by linarith
  hence 2: "floorLog b a < e + 1"
    using b1 power_int_increasing[of "e + 1" "floorLog b a" "of_nat b :: rat"]
    by (cases "floorLog b a < e + 1") auto
  from 1 2 show ?thesis by simp
qed


subsection \<open>Rounding to the nearest integer\<close>

lemma roundHalfEven_of_int [simp]: "roundHalfEven (of_int m) = m"
  by (simp add: roundHalfEven_def)

lemma roundHalfEven_cases:
  "roundHalfEven x = \<lfloor>x\<rfloor> \<and> x - of_int \<lfloor>x\<rfloor> \<le> 1 / 2
   \<or> roundHalfEven x = \<lfloor>x\<rfloor> + 1 \<and> 1 / 2 \<le> x - of_int \<lfloor>x\<rfloor>"
  by (auto simp add: roundHalfEven_def Let_def)

lemma roundHalfEven_near:
  assumes "\<bar>x - of_int m\<bar> < 1 / 2"
  shows "roundHalfEven x = m"
proof -
  from roundHalfEven_cases[of x] assms show ?thesis
    by (elim disjE conjE; linarith)
qed

lemma roundHalfEven_ge:
  assumes "of_int k \<le> x"
  shows "k \<le> roundHalfEven x"
proof -
  have "k \<le> \<lfloor>x\<rfloor>" using assms by (simp add: le_floor_iff)
  with roundHalfEven_cases[of x] show ?thesis by auto
qed


subsection \<open>Rounding to binary64\<close>

lemma roundToBinary64_binade:
  assumes "2 powi e \<le> a" "a < 2 powi (e + 1)"
  shows "roundToBinary64 a =
     (let p = max (e - 52) (- 1074);
          r = of_int (roundHalfEven (a / 2 powi p)) * 2 powi p
      in if 2 ^ 1024 \<le> r then None else Some r)"
proof -
  have "floorLog 2 a = e"
    using floorLog_unique[of 2 e a] assms by simp
  thus ?thesis by (simp add: roundToBinary64_def)
qed

lemma fl_exact:
  fixes m :: nat
  assumes m: "m < 2 ^ 53" and p: "- 1074 \<le> p" and lt: "of_nat m * 2 powi p < (2::rat) ^ 1024"
  shows "fl s (of_nat m * 2 powi p) = Finite s (of_nat m * 2 powi p)"
proof (cases "m = 0")
  case True thus ?thesis by (simp add: fl_def)
next
  case False
  define a :: rat where "a = of_nat m * 2 powi p"
  have a0: "0 < a" using False by (simp add: a_def)
  define e where "e = floorLog 2 a"
  have B: "2 powi e \<le> a" "a < 2 powi (e + 1)"
    using floorLog_bounds[of 2 a] a0 by (simp_all add: e_def)
  have "(of_nat m :: rat) < 2 ^ 53" using m by (metis of_nat_less_iff of_nat_numeral of_nat_power)
  hence "a < 2 ^ 53 * 2 powi p" by (simp add: a_def)
  also have "\<dots> = 2 powi (53 + p)" by (simp add: power_int_add)
  finally have "2 powi e < (2::rat) powi (53 + p)" using B(1) by linarith
  hence ep: "e < 53 + p"
    using power_int_increasing[of "53 + p" e "2::rat"] by (cases "e < 53 + p") auto
  define q where "q = max (e - 52) (- 1074)"
  have qp: "q \<le> p" using ep p by (simp add: q_def)
  have "a / 2 powi q = of_nat m * 2 powi (p - q)"
    by (simp add: a_def power_int_diff)
  also have "\<dots> = of_int (int m * 2 ^ nat (p - q))"
    using qp by (simp add: power_int_def)
  finally have int: "a / 2 powi q = of_int (int m * 2 ^ nat (p - q))" .
  have r: "of_int (roundHalfEven (a / 2 powi q)) * 2 powi q = a"
    unfolding int roundHalfEven_of_int unfolding int[symmetric] by simp
  have "roundToBinary64 a = Some a"
    unfolding roundToBinary64_def e_def[symmetric] Let_def q_def[symmetric] r
    using lt by (simp add: a_def)
  thus ?thesis using a0 by (simp add: fl_def a_def)
qed

lemma fl_nat:
  assumes "n < 2 ^ 53"
  shows "fl s (of_nat n) = Finite s (of_nat n)"
proof -
  have "(of_nat n :: rat) < 2 ^ 53"
    using assms by (metis of_nat_less_iff of_nat_numeral of_nat_power)
  hence "of_nat n * 2 powi 0 < (2::rat) ^ 1024"
    by (simp add: order_less_trans[where y="2 ^ 53"])
  from fl_exact[OF assms _ this, of s] show ?thesis by simp
qed

lemma fl_overflow:
  assumes "(2::rat) ^ 1024 \<le> a"
  shows "fl s a = Infinity s"
proof -
  have a0: "0 < a" using assms by (simp add: order_less_le_trans[where y="2 ^ 1024"])
  define e where "e = floorLog 2 a"
  have B: "2 powi e \<le> a" "a < 2 powi (e + 1)"
    using floorLog_bounds[of 2 a] a0 by (simp_all add: e_def)
  have "(2::rat) powi 1024 < 2 powi (e + 1)" using assms B(2) by simp
  hence e: "1024 \<le> e"
    using power_int_increasing[of "e + 1" 1024 "2::rat"] by (cases "1024 < e + 1") auto
  define p where "p = e - 52"
  have pm: "max (e - 52) (- 1074) = p" using e by (simp add: p_def)
  have pw: "(2::rat) ^ 52 * 2 powi p = 2 powi e"
  proof -
    have "(2::rat) powi (52 + p) = 2 powi 52 * 2 powi p"
      by (rule power_int_add) simp
    thus ?thesis by (simp add: p_def)
  qed
  have "2 ^ 52 * 2 powi p \<le> a"
    using B(1) unfolding pw .
  hence "of_int (2 ^ 52) \<le> a / 2 powi p"
    by (simp add: field_simps)
  hence "2 ^ 52 \<le> roundHalfEven (a / 2 powi p)"
    by (rule roundHalfEven_ge)
  hence "(2::rat) ^ 52 \<le> of_int (roundHalfEven (a / 2 powi p))"
    by (metis of_int_le_iff of_int_numeral of_int_power)
  hence L: "(2::rat) ^ 52 * 2 powi p \<le> of_int (roundHalfEven (a / 2 powi p)) * 2 powi p"
    by (intro mult_right_mono) simp_all
  have "(2::rat) powi 1024 \<le> 2 powi e"
    using e by (intro power_int_increasing) auto
  also have "\<dots> = 2 ^ 52 * 2 powi p" by (rule pw[symmetric])
  also note L
  finally have "(2::rat) ^ 1024 \<le> of_int (roundHalfEven (a / 2 powi p)) * 2 powi p"
    by simp
  hence "roundToBinary64 a = None"
    unfolding roundToBinary64_def e_def[symmetric] Let_def pm by simp
  thus ?thesis using a0 by (simp add: fl_def)
qed


subsection \<open>Finite results\<close>








subsection \<open>Evaluation on numerals\<close>

lemma floor_rat_numeral_div [simp]:
  "\<lfloor>numeral a / numeral b :: rat\<rfloor> = numeral a div numeral b"
  by (metis floor_divide_of_int_eq of_int_numeral)

lemma ceiling_rat_numeral_div [simp]:
  "\<lceil>numeral a / numeral b :: rat\<rceil> = - (- numeral a div numeral b)"
  using ceiling_divide_eq_div[of "numeral a" "numeral b", where ?'a = rat] by simp

lemma floor_rat_minus_numeral_div [simp]:
  "\<lfloor>- (numeral a / numeral b) :: rat\<rfloor> = - numeral a div numeral b"
  by (metis divide_minus_left floor_divide_of_int_eq of_int_neg_numeral of_int_numeral)

lemma ceiling_rat_minus_numeral_div [simp]:
  "\<lceil>- (numeral a / numeral b) :: rat\<rceil> = - (numeral a div numeral b)"
  using ceiling_divide_eq_div[of "- numeral a" "numeral b", where ?'a = rat] by simp

lemma floor_rat_one_div [simp]: "\<lfloor>1 / numeral b :: rat\<rfloor> = 1 div numeral b"
  by (metis floor_divide_of_int_eq of_int_numeral of_int_1)

lemma ceiling_rat_one_div [simp]: "\<lceil>1 / numeral b :: rat\<rceil> = - (- 1 div numeral b)"
  using ceiling_divide_eq_div[of 1 "numeral b", where ?'a = rat] by simp

lemma floorlog_numeral:
  "floorlog (numeral b) (numeral x) =
     (if 1 < (numeral b :: nat) then floorlog (numeral b) (numeral x div numeral b) + 1 else 0)"
  "floorlog (numeral b) 0 = 0"
  "floorlog (numeral b) 1 = (if 1 < (numeral b :: nat) then 1 else 0)"
  "floorlog (numeral b) (Suc 0) = (if 1 < (numeral b :: nat) then 1 else 0)"
  by (subst compute_floorlog, simp)+

lemmas fl_eval = fl_def roundToBinary64_def roundHalfEven_def floorLog_def floorlog_numeral Let_def


lemma replicate_numeral [simp]: "replicate (numeral k) x = x # replicate (pred_numeral k) x"
  by (simp add: numeral_eq_Suc)

lemmas num_eval = isqrt.simps num_def Number_EPSILON_def num_1e12_def num_1e_9_def signedValue_def flSigned_def
  num_ge_def strictEq_def num_sub_def orZero_def

lemmas str_eval = isDigit_def digitValue_def digitChar_def decimalValue_def digitsOf.simps
  removeCommas_def removeFirstPlus_def shortestFrom.simps shortestDigits_def signPrefix_def
  exponentText_def renderDigits_def groupThousands.simps fractionText_def isWhiteSpace_def
  trim_def isSignChar_def parseInt10_def exponentPart_def unsignedDecimal_def radixDigit_def
  radixValue_def nonDecimalLiteral_def StringToNumber_def

lemmas calc_eval = formatNumber_def parseDisplayValue_def isNumericEntry_def roundedValue_def
  formattedDisplay_def

lemmas handler_eval = run.simps display_def handleDigitPress_def handleDecimalPress_def commitValue_def
  handleOperatorPress_def handleEqualsPress_def handlePercent_def handleUnaryCommand_def
  handleClearEntry_def handleClearAll_def handleBackspace_def handleMemoryAction_def
  createMemoryEntry_def initialState_def

lemmas all_eval = fl_eval num_eval str_eval calc_eval handler_eval

section \<open>Texts made of digits\<close>

lemma run_append: "run (xs @ ys) s = run ys (run xs s)"
  by (induction xs arbitrary: s) (simp_all add: run.simps)

lemma isDigit_not_special:
  assumes "isDigit c"
  shows "c \<noteq> CHR '',''" "c \<noteq> CHR ''-''" "c \<noteq> CHR ''+''" "c \<noteq> CHR ''.''" "c \<noteq> CHR ''e''"
    "c \<noteq> CHR ''E''" "c \<noteq> CHR ''x''" "c \<noteq> CHR ''X''" "c \<noteq> CHR ''o''" "c \<noteq> CHR ''O''"
    "c \<noteq> CHR ''b''" "c \<noteq> CHR ''B''" "c \<noteq> CHR ''I''" "c \<noteq> CHR ''C''"
    "\<not> isWhiteSpace c" "\<not> isSignChar c"
  using assms by (auto simp add: isDigit_def isWhiteSpace_def isSignChar_def)

lemma removeCommas_digits: "list_all isDigit ds \<Longrightarrow> removeCommas ds = ds"
  by (induction ds) (auto simp add: removeCommas_def isDigit_not_special)

lemma takeWhile_digits: "list_all isDigit ds \<Longrightarrow> takeWhile isDigit ds = ds"
  by (induction ds) auto

lemma dropWhile_digits: "list_all isDigit ds \<Longrightarrow> dropWhile isDigit ds = []"
  by (induction ds) auto

lemma isNumericEntry_digits:
  assumes "ds \<noteq> []" "list_all isDigit ds"
  shows "isNumericEntry ds"
proof -
  obtain d r where ds: "ds = d # r" using assms(1) by (cases ds) auto
  have d: "d \<noteq> CHR ''-''" using assms(2) ds by (simp add: isDigit_not_special)
  have t: "take 1 ds \<noteq> ''-''" using d by (simp add: ds)
  show ?thesis
    unfolding isNumericEntry_def removeCommas_digits[OF assms(2)] Let_def
    using t assms by (simp add: takeWhile_digits dropWhile_digits)
qed

lemma trim_digits:
  assumes "list_all isDigit ds"
  shows "trim ds = ds"
proof -
  have 1: "dropWhile isWhiteSpace ds = ds"
    using assms by (cases ds) (auto simp add: isDigit_not_special)
  have "list_all isDigit (rev ds)" using assms by (simp add: list_all_iff)
  hence 2: "dropWhile isWhiteSpace (rev ds) = rev ds"
    by (cases "rev ds") (auto simp add: isDigit_not_special)
  show ?thesis by (simp add: trim_def 1 2)
qed

lemma nonDecimalLiteral_digits:
  assumes "list_all isDigit ds"
  shows "nonDecimalLiteral ds = None"
proof -
  have "\<forall>c \<in> set (take 2 ds). isDigit c"
    using assms set_take_subset[of 2 ds] by (auto simp add: list_all_iff)
  hence sec: "\<And>a b. take 2 ds = [a, b] \<Longrightarrow> isDigit b" by simp
  have "take 2 ds \<noteq> ''0x''" "take 2 ds \<noteq> ''0X''" "take 2 ds \<noteq> ''0o''"
    "take 2 ds \<noteq> ''0O''" "take 2 ds \<noteq> ''0b''" "take 2 ds \<noteq> ''0B''"
    using sec[of "CHR ''0''" "CHR ''x''"] sec[of "CHR ''0''" "CHR ''X''"]
      sec[of "CHR ''0''" "CHR ''o''"] sec[of "CHR ''0''" "CHR ''O''"]
      sec[of "CHR ''0''" "CHR ''b''"] sec[of "CHR ''0''" "CHR ''B''"]
    unfolding isDigit_def by auto
  thus ?thesis by (simp add: nonDecimalLiteral_def)
qed

lemma StringToNumber_digits:
  assumes "ds \<noteq> []" "list_all isDigit ds"
  shows "StringToNumber ds = fl False (of_nat (decimalValue ds))"
proof -
  obtain d r where ds: "ds = d # r" using assms(1) by (cases ds) auto
  have d: "isDigit d" using assms(2) ds by simp
  have inf: "ds \<noteq> ''Infinity''"
    using d ds by (auto simp add: isDigit_not_special)
  have t: "take 1 ds \<noteq> ''-''" using d by (auto simp add: ds isDigit_not_special)
  have u: "unsignedDecimal ds = Some (of_nat (decimalValue ds))"
    using assms by (simp add: unsignedDecimal_def takeWhile_digits dropWhile_digits exponentPart_def)
  have sg: "(case ds of [] \<Rightarrow> [] | c # r \<Rightarrow> if isSignChar c then r else ds) = ds"
    using d by (simp add: ds isDigit_not_special)
  show ?thesis
    unfolding StringToNumber_def trim_digits[OF assms(2)] nonDecimalLiteral_digits[OF assms(2)]
      Let_def sg u
    using assms(1) inf t by simp
qed

lemma parseDisplayValue_digits:
  assumes "ds \<noteq> []" "list_all isDigit ds"
  shows "parseDisplayValue ds = fl False (of_nat (decimalValue ds))"
proof -
  have "isDigit (hd ds)" using assms by (cases ds) simp_all
  hence "ds \<noteq> ''Cannot divide by zero''"
    by (auto simp add: isDigit_def)
  thus ?thesis
    using assms by (simp add: parseDisplayValue_def removeCommas_digits StringToNumber_digits)
qed

lemma decimalValue_snoc: "decimalValue (ds @ [c]) = 10 * decimalValue ds + digitValue c"
  by (simp add: decimalValue_def)

lemma decimalValue_zeros: "decimalValue (ds @ replicate n (CHR ''0'')) = decimalValue ds * 10 ^ n"
proof (induction n)
  case 0 thus ?case by simp
next
  case (Suc n)
  have "ds @ replicate (Suc n) (CHR ''0'') = (ds @ replicate n (CHR ''0'')) @ [CHR ''0'']"
    by (simp add: replicate_append_same)
  hence "decimalValue (ds @ replicate (Suc n) (CHR ''0''))
      = 10 * decimalValue (ds @ replicate n (CHR ''0'')) + digitValue (CHR ''0'')"
    by (simp only: decimalValue_snoc)
  thus ?case using Suc by (simp add: digitValue_def)
qed

lemma run_type_zeros:
  assumes "displayValue s = d # ds" "list_all isDigit (d # ds)" "d \<noteq> CHR ''0''"
    "\<not> waitingForOperand s"
  shows "run (replicate n (Digit D0)) s = s\<lparr>displayValue := d # ds @ replicate n (CHR ''0'')\<rparr>"
  using assms
proof (induction n arbitrary: s ds)
  case 0
  thus ?case by (simp add: run.simps)
next
  case (Suc n)
  let ?t = "handleButtonPress (Digit D0) s"
  have num: "isNumericEntry (d # ds)"
    using Suc.prems(2) by (intro isNumericEntry_digits) simp_all
  have ne: "d # ds \<noteq> ''0''" using Suc.prems(3) by simp
  have t: "?t = s\<lparr>displayValue := d # ds @ ''0''\<rparr>"
    using Suc.prems(1,4) num ne by (simp add: handleDigitPress_def Let_def)
  have z: "isDigit (CHR ''0'')" by (simp add: isDigit_def)
  have "run (replicate n (Digit D0)) ?t = ?t\<lparr>displayValue := d # (ds @ ''0'') @ replicate n (CHR ''0'')\<rparr>"
  proof (rule Suc.IH)
    show "displayValue ?t = d # ds @ ''0''" unfolding t by simp
    show "list_all isDigit (d # ds @ ''0'')" using Suc.prems(2) z by simp
    show "d \<noteq> CHR ''0''" by fact
    show "\<not> waitingForOperand ?t" unfolding t using Suc.prems(4) by simp
  qed
  hence "run (replicate n (Digit D0)) ?t = s\<lparr>displayValue := d # ds @ replicate (Suc n) (CHR ''0'')\<rparr>"
    unfolding t by (simp add: replicate_append_same)
  thus ?case by (simp only: replicate_Suc run.simps)
qed

section \<open>Action sequences\<close>

lemma reachable_run: "reachable s \<Longrightarrow> reachable (run as s)"
  by (induction as arbitrary: s) (simp_all add: run.simps reachable_step)

lemma parse_sentinel: "parseDisplayValue ''Cannot divide by zero'' = NaN"
  by (simp add: parseDisplayValue_def)

lemma trace_2_plus_3:
  "run [Digit D2, Operator Add, Digit D3, Equals] initialState =
     \<lparr>displayValue = ''5'', waitingForOperand = True, pendingOperator = Some Add,
      storedValue = Some (Finite False 5), memoryEntries = [], memoryExpanded = False\<rparr>"
  by (simp add: all_eval)

lemma trace_2_plus_3_again:
  "run [Digit D2, Operator Add, Digit D3, Equals, Equals] initialState =
     \<lparr>displayValue = ''10'', waitingForOperand = True, pendingOperator = Some Add,
      storedValue = Some (Finite False 10), memoryEntries = [], memoryExpanded = False\<rparr>"
  by (simp add: all_eval)

lemma formattedDisplay_5_10:
  "formattedDisplay ''5'' = ''5''"
  "formattedDisplay ''10'' = ''10''"
  by (simp_all add: all_eval)

lemma trace_5_div_0:
  "run [Digit D5, Operator Divide, Digit D0, Equals] initialState =
     \<lparr>displayValue = ''Cannot divide by zero'', waitingForOperand = True, pendingOperator = None,
      storedValue = None, memoryEntries = [], memoryExpanded = False\<rparr>"
  by (simp add: all_eval)

lemma trace_5_plus_times_3:
  "run [Digit D5, Operator Add, Operator Multiply, Digit D3, Equals] initialState =
     \<lparr>displayValue = ''15'', waitingForOperand = True, pendingOperator = Some Multiply,
      storedValue = Some (Finite False 15), memoryEntries = [], memoryExpanded = False\<rparr>"
  by (simp add: all_eval)

lemma trace_5_plus:
  "run [Digit D5, Operator Add] initialState =
     \<lparr>displayValue = ''5'', waitingForOperand = True, pendingOperator = Some Add,
      storedValue = Some (Finite False 5), memoryEntries = [], memoryExpanded = False\<rparr>"
  by (simp add: all_eval)

lemma parse_5: "parseDisplayValue ''5'' = Finite False 5"
  by (simp add: all_eval)

lemma formattedDisplay_15: "formattedDisplay ''15'' = ''15''"
  by (simp add: all_eval)

lemma trace_200_plus_10_percent:
  "run [Digit D2, Digit D0, Digit D0, Operator Add, Digit D1, Digit D0, Percent] initialState =
     \<lparr>displayValue = ''20'', waitingForOperand = True, pendingOperator = Some Add,
      storedValue = Some (Finite False 200), memoryEntries = [], memoryExpanded = False\<rparr>"
  by (simp add: all_eval)

lemma trace_200_plus_10_percent_equals:
  "run [Digit D2, Digit D0, Digit D0, Operator Add, Digit D1, Digit D0, Percent, Equals] initialState =
     \<lparr>displayValue = ''220'', waitingForOperand = True, pendingOperator = Some Add,
      storedValue = Some (Finite False 220), memoryEntries = [], memoryExpanded = False\<rparr>"
  by (simp add: all_eval)

lemma trace_200_plus_10:
  "run [Digit D2, Digit D0, Digit D0, Operator Add, Digit D1, Digit D0] initialState =
     \<lparr>displayValue = ''10'', waitingForOperand = False, pendingOperator = Some Add,
      storedValue = Some (Finite False 200), memoryEntries = [], memoryExpanded = False\<rparr>"
  by (simp add: all_eval)

lemma parse_10: "parseDisplayValue ''10'' = Finite False 10"
  by (simp add: all_eval)

lemma formattedDisplay_20_220: "formattedDisplay ''20'' = ''20''" "formattedDisplay ''220'' = ''220''"
  by (simp_all add: all_eval)






lemma value_1e_7: "fl False (1 / 10 ^ 7) = Finite False (944473296573929 / 9444732965739290427392)"
  by (simp add: all_eval)

lemma range_1e_7:
  "num_ge (Math_abs (Finite False (944473296573929 / 9444732965739290427392))) num_1e_9"
  "num_lt (Math_abs (Finite False (944473296573929 / 9444732965739290427392))) num_1e12"
  by (simp_all add: all_eval)

lemma toString_1e_7:
  "Number_toString (Finite False (944473296573929 / 9444732965739290427392)) = ''1e-7''"
  by (simp add: all_eval)

lemma format_1e_7: "formatNumber (Finite False (944473296573929 / 9444732965739290427392)) = ''1''"
  by (simp add: all_eval)

lemma trace_1_div_1e7:
  "run [Digit D1, Operator Divide, Digit D1, Digit D0, Digit D0, Digit D0, Digit D0, Digit D0,
        Digit D0, Digit D0, Equals] initialState =
     \<lparr>displayValue = ''1'', waitingForOperand = True, pendingOperator = Some Divide,
      storedValue = Some (Finite False (944473296573929 / 9444732965739290427392)),
      memoryEntries = [], memoryExpanded = False\<rparr>"
  by (simp add: all_eval)

lemma value_below_1e_9:
  "fl False (999999999 / 10 ^ 18) = Finite False (4835703273622813 / 4835703278458516698824704)"
  by (simp add: all_eval)

lemma format_below_1e_9:
  "formatNumber (Finite False (4835703273622813 / 4835703278458516698824704)) = ''1.000000e-9''"
  by (simp add: all_eval)

lemma parse_1e_9:
  "parseDisplayValue ''1.000000e-9'' = Finite False (4835703278458517 / 4835703278458516698824704)"
  by (simp add: all_eval)

lemma format_1e_9:
  "formatNumber (Finite False (4835703278458517 / 4835703278458516698824704)) = ''1''"
  by (simp add: all_eval)

lemma scaled_tie:
  "num_mul (num_add (Finite True (32769 / 8192)) Number_EPSILON) num_1e12
     = Finite True (8000244140625 / 2)"
  by (simp add: all_eval)

lemma code_rounding:
  "num_div (Math_round (Finite True (8000244140625 / 2))) num_1e12
     = Finite True (4503737066323405 / 1125899906842624)"
  by (simp add: all_eval)

lemma spec_rounding:
  "num_div (roundHalfAwayFromZero (Finite True (8000244140625 / 2))) num_1e12
     = Finite True (4503737066324531 / 1125899906842624)"
  by (simp add: all_eval roundHalfAwayFromZero_def)

lemma format_code_rounding:
  "formatNumber (Finite True (4503737066323405 / 1125899906842624)) = ''-4.000122070312''"
  by (simp add: all_eval)

lemma format_spec_rounding:
  "formatNumber (Finite True (4503737066324531 / 1125899906842624)) = ''-4.000122070313''"
  by (simp add: all_eval)

lemma Math_round_value:
  "\<exists>t b. Math_round (Finite s a) = Finite t b
          \<and> signedValue t b = of_int \<lfloor>signedValue s a + 1 / 2\<rfloor>"
  by (auto simp add: Let_def signedValue_def)

lemma round_minus_5_halves: "Math_round (Finite True (5 / 2)) = Finite True 2"
  by (simp add: all_eval)

lemma commit_5: "formatNumber (roundedValue (Finite False 5)) = ''5''"
  by (simp add: all_eval)

lemma trace_decimal_entry:
  "run [Digit D0, Decimal, Digit D1, Operator Add, Digit D0, Decimal, Digit D2, Equals] initialState
     = \<lparr>displayValue = ''3'', waitingForOperand = True, pendingOperator = Some Add,
        storedValue = Some (Finite False 3), memoryEntries = [], memoryExpanded = False\<rparr>"
  by (simp add: all_eval)

lemma trace_decimal_point_lost:
  "run [Digit D0, Decimal, Digit D1] initialState
     = \<lparr>displayValue = ''1'', waitingForOperand = False, pendingOperator = None,
        storedValue = None, memoryEntries = [], memoryExpanded = False\<rparr>"
  by (simp add: all_eval)

lemma fl_binade:
  assumes "2 powi e \<le> a" "a < 2 powi (e + 1)"
  shows "fl s a =
     (let p = max (e - 52) (- 1074);
          r = of_int (roundHalfEven (a / 2 powi p)) * 2 powi p
      in if 2 ^ 1024 \<le> r then Infinity s else Finite s r)"
proof -
  have "(0::rat) < 2 powi e" by simp
  hence "a \<noteq> 0" using assms(1) by linarith
  thus ?thesis
    by (simp add: fl_def roundToBinary64_binade[OF assms] Let_def)
qed

lemma fl_1e300: "fl False (10 ^ 300) = Finite False double_1e300"
  unfolding double_1e300_def
  by (subst fl_binade[of 996]) (simp_all add: roundHalfEven_def Let_def)

lemma fl_1e300_exact: "fl False (double_1e300 * 1) = Finite False double_1e300"
  unfolding double_1e300_def
  using fl_exact[of 6724873095247260 944 False] by simp

lemma fl_1e300_eps: "fl False (double_1e300 + 1 / 2 ^ 52) = Finite False double_1e300"
  unfolding double_1e300_def
  by (subst fl_binade[of 996]) (simp_all add: roundHalfEven_def Let_def)

lemma fl_1e300_scaled: "fl False (double_1e300 * 10 ^ 12) = Infinity False"
  unfolding double_1e300_def
  by (rule fl_overflow) simp

lemma double_1e300_pos: "0 < double_1e300"
  by (simp add: double_1e300_def)

lemma rounded_1e300: "roundedValue (Finite False double_1e300) = Infinity False"
proof -
  have 1: "num_add (Finite False double_1e300) Number_EPSILON = Finite False double_1e300"
    using fl_1e300_eps double_1e300_pos
    by (simp add: Number_EPSILON_def signedValue_def flSigned_def Let_def)
  have 2: "num_mul (Finite False double_1e300) num_1e12 = Infinity False"
    using fl_1e300_scaled by (simp add: num_1e12_def)
  show ?thesis
    unfolding roundedValue_def 1 2 by (simp add: num_1e12_def)
qed

lemma times_one_1e300:
  "num_mul (Finite False double_1e300) (Finite False 1) = Finite False double_1e300"
  using fl_1e300_exact by simp

lemma parse_one_zeros:
  "parseDisplayValue (CHR ''1'' # replicate n (CHR ''0'')) = fl False (10 ^ n)"
proof -
  have d: "list_all isDigit (CHR ''1'' # replicate n (CHR ''0''))"
    by (simp add: isDigit_def list_all_iff)
  have "decimalValue (''1'' @ replicate n (CHR ''0'')) = decimalValue ''1'' * 10 ^ n"
    by (rule decimalValue_zeros)
  hence v: "decimalValue (CHR ''1'' # replicate n (CHR ''0'')) = 10 ^ n"
    by (simp add: decimalValue_def digitValue_def)
  show ?thesis
    using parseDisplayValue_digits[OF _ d] by (simp add: v)
qed

lemma parse_1: "parseDisplayValue ''1'' = Finite False 1"
  using parseDisplayValue_digits[of "''1''"] fl_nat[of 1 False]
  by (simp add: isDigit_def decimalValue_def digitValue_def)

lemma overflowState_eq:
  "overflowState =
     \<lparr>displayValue = ''Cannot divide by zero'', waitingForOperand = True,
      pendingOperator = Some Multiply, storedValue = Some (Finite False double_1e300),
      memoryEntries = [], memoryExpanded = False\<rparr>"
proof -
  let ?X = "Finite False double_1e300"
  let ?big = "CHR ''1'' # replicate 300 (CHR ''0'')"
  have s1: "run [Digit D1] initialState = initialState\<lparr>displayValue := ''1''\<rparr>"
    by (simp add: run.simps handleDigitPress_def initialState_def isNumericEntry_def
        removeCommas_def isDigit_def)
  have s2: "run (replicate 300 (Digit D0)) (initialState\<lparr>displayValue := ''1''\<rparr>) =
      initialState\<lparr>displayValue := ?big\<rparr>"
    using run_type_zeros[of "initialState\<lparr>displayValue := ''1''\<rparr>" "CHR ''1''" "[]" 300]
    by (simp add: isDigit_def initialState_def del: replicate_numeral)
  have p: "parseDisplayValue ?big = ?X"
    unfolding parse_one_zeros fl_1e300 ..
  have s3: "handleButtonPress (Operator Multiply) (initialState\<lparr>displayValue := ?big\<rparr>) =
      initialState\<lparr>displayValue := ?big,
        storedValue := Some ?X, pendingOperator := Some Multiply, waitingForOperand := True\<rparr>"
    by (simp add: handleOperatorPress_def p initialState_def del: replicate_numeral)
  have s4: "handleButtonPress (Digit D1)
        (initialState\<lparr>displayValue := ?big,
          storedValue := Some ?X, pendingOperator := Some Multiply, waitingForOperand := True\<rparr>) =
      initialState\<lparr>displayValue := ''1'',
        storedValue := Some ?X, pendingOperator := Some Multiply, waitingForOperand := False\<rparr>"
    by (simp add: handleDigitPress_def initialState_def del: replicate_numeral)
  have s5: "handleButtonPress Equals
        (initialState\<lparr>displayValue := ''1'',
          storedValue := Some ?X, pendingOperator := Some Multiply, waitingForOperand := False\<rparr>) =
      initialState\<lparr>displayValue := ''Cannot divide by zero'',
        storedValue := Some ?X, pendingOperator := Some Multiply, waitingForOperand := True\<rparr>"
    unfolding handleButtonPress.simps handleCommand.simps handleEqualsPress_def
    by (simp add: initialState_def parse_1 times_one_1e300 commitValue_def rounded_1e300
        formatNumber_def Let_def del: num_mul.simps)
  have "overflowState =
      run [Operator Multiply, Digit D1, Equals]
        (run (replicate 300 (Digit D0)) (run [Digit D1] initialState))"
    unfolding overflowState_def
    by (simp only: run_append[symmetric] append_Cons append_Nil)
  also have "\<dots> = initialState\<lparr>displayValue := ''Cannot divide by zero'',
        storedValue := Some ?X, pendingOperator := Some Multiply, waitingForOperand := True\<rparr>"
    unfolding s1 s2 by (simp only: run.simps s3 s4 s5)
  finally show ?thesis by (simp add: initialState_def)
qed





lemma not_numeric_sentinels:
  "\<not> isNumericEntry ''Cannot divide by zero''"
  "\<not> isNumericEntry ''Invalid input''"
  by (simp_all add: isNumericEntry_def removeCommas_def isDigit_def)





lemma trace_4_square_5:
  "run [Digit D4, Square, Digit D5] initialState =
     \<lparr>displayValue = ''165'', waitingForOperand = False, pendingOperator = None,
      storedValue = None, memoryEntries = [], memoryExpanded = False\<rparr>"
  by (simp add: all_eval)


lemma trace_million_square:
  "run [Digit D1, Digit D0, Digit D0, Digit D0, Digit D0, Digit D0, Digit D0, Square] initialState =
     initialState\<lparr>displayValue := ''1.000000e12''\<rparr>"
  by (simp add: all_eval)


section \<open>The shape of the entry\<close>

lemma scan_append:
  "scan p (xs @ ys) = (case scan p xs of None \<Rightarrow> None | Some q \<Rightarrow> scan q ys)"
  by (induction xs arbitrary: p) (auto split: option.splits)

lemma scan_digits:
  assumes "list_all isDigit ds"
  shows "scan IntPart ds = Some IntPart" "scan FracPart ds = Some FracPart"
    "scan ExpDigits ds = Some ExpDigits"
  using assms by (induction ds) auto

lemma scan_digits_first:
  assumes "ds \<noteq> []" "list_all isDigit ds"
  shows "scan Start ds = Some IntPart" "scan AfterSign ds = Some IntPart"
    "scan ExpMark ds = Some ExpDigits" "scan ExpSign ds = Some ExpDigits"
  using assms by (cases ds; simp add: scan_digits isDigit_not_special)+

lemma scan_sign: "scan Start (signPrefix s @ xs) = scan (if s then AfterSign else Start) xs"
  by (simp add: signPrefix_def)

lemma scan_no_point:
  assumes "scan p xs = Some q" "CHR ''.'' \<notin> set xs" "p \<in> {Start, AfterSign, IntPart}"
  shows "q \<in> {Start, AfterSign, IntPart}"
  using assms
proof (induction xs arbitrary: p)
  case Nil thus ?case by simp
next
  case (Cons c cs)
  from Cons.prems obtain r where r: "advance p c = Some r" "scan r cs = Some q"
    by (auto split: option.splits)
  have "r \<in> {Start, AfterSign, IntPart}"
    using r(1) Cons.prems(2,3) by (auto split: if_splits)
  thus ?case using Cons.IH[OF r(2)] Cons.prems(2) by simp
qed

lemma scan_no_e:
  assumes "scan p xs = Some q" "CHR ''e'' \<notin> set xs" "p \<in> {Start, AfterSign, IntPart, FracPart}"
  shows "q \<in> {Start, AfterSign, IntPart, FracPart}"
  using assms
proof (induction xs arbitrary: p)
  case Nil thus ?case by simp
next
  case (Cons c cs)
  from Cons.prems obtain r where r: "advance p c = Some r" "scan r cs = Some q"
    by (auto split: option.splits)
  have "r \<in> {Start, AfterSign, IntPart, FracPart}"
    using r(1) Cons.prems(2,3) by (auto split: if_splits)
  thus ?case using Cons.IH[OF r(2)] Cons.prems(2) by simp
qed

lemma advance_not_Start: "advance p c \<noteq> Some Start"
  by (cases p) auto

lemma scan_Start: "scan p xs = Some Start \<Longrightarrow> xs = []"
proof (induction xs arbitrary: p)
  case Nil thus ?case by simp
next
  case (Cons c cs)
  from Cons.prems obtain r where r: "advance p c = Some r" "scan r cs = Some Start"
    by (auto split: option.splits)
  hence "cs = []" using Cons.IH by blast
  thus ?case using r advance_not_Start by simp
qed

lemma advance_AfterSign: "advance p c = Some AfterSign \<Longrightarrow> p = Start \<and> c = CHR ''-''"
  by (cases p) (auto split: if_splits)

lemma scan_AfterSign: "scan Start xs = Some AfterSign \<Longrightarrow> xs = ''-''"
proof -
  have "\<And>p. scan p xs = Some AfterSign \<Longrightarrow> p = AfterSign \<and> xs = [] \<or> p = Start \<and> xs = ''-''"
  proof (induction xs)
    case Nil thus ?case by simp
  next
    case (Cons c cs)
    from Cons.prems obtain r where r: "advance p c = Some r" "scan r cs = Some AfterSign"
      by (auto split: option.splits)
    from Cons.IH[OF r(2)] show ?case
    proof
      assume "r = AfterSign \<and> cs = []"
      thus ?thesis using r(1) advance_AfterSign by auto
    next
      assume "r = Start \<and> cs = ''-''"
      thus ?thesis using r(1) advance_not_Start by auto
    qed
  qed
  thus "scan Start xs = Some AfterSign \<Longrightarrow> xs = ''-''" by blast
qed

lemma scan_prefix:
  assumes "scan p (xs @ ys) = Some r"
  shows "\<exists>q. scan p xs = Some q"
  using assms by (auto simp add: scan_append split: option.splits)

lemma numberText_snoc_digit:
  assumes "numberText xs" "isDigit c"
  shows "numberText (xs @ [c])"
  using assms by (auto simp add: numberText_def scan_append)

subsection \<open>Digit strings\<close>

lemma digitChar_isDigit: "isDigit (digitChar d)"
proof -
  have "d mod 10 < length ''0123456789''" by simp
  hence "''0123456789'' ! (d mod 10) \<in> set ''0123456789''" by (rule nth_mem)
  thus ?thesis by (simp only: digitChar_def isDigit_def)
qed

lemma digitsOf_digits: "list_all isDigit (digitsOf n)"
  by (induction n rule: digitsOf.induct) (subst digitsOf.simps, simp add: digitChar_isDigit)

lemma digitsOf_not_Nil: "digitsOf n \<noteq> []"
  by (subst digitsOf.simps) simp

lemma digitValue_less: "isDigit c \<Longrightarrow> digitValue c < 10"
  by (auto simp add: isDigit_def digitValue_def)

lemma decimalValue_less: "list_all isDigit ds \<Longrightarrow> decimalValue ds < 10 ^ length ds"
proof (induction ds rule: rev_induct)
  case Nil thus ?case by (simp add: decimalValue_def)
next
  case (snoc c ds)
  have "decimalValue ds < 10 ^ length ds" "digitValue c < 10"
    using snoc digitValue_less by simp_all
  hence "10 * decimalValue ds + digitValue c < 10 * 10 ^ length ds" by linarith
  thus ?case by (simp add: decimalValue_snoc)
qed

lemma isDigit_not_E2: "isDigit c \<Longrightarrow> c \<noteq> CHR 0xE2"
  by (auto simp add: isDigit_def)

subsection \<open>Grouping, splitting and replacing\<close>

lemma groupThousands_shape:
  assumes "ds \<noteq> []" "list_all isDigit ds"
  shows "\<exists>d xs. groupThousands ds = d # xs \<and> isDigit d
           \<and> list_all (\<lambda>c. isDigit c \<or> c = CHR '','') xs"
  using assms
proof (induction ds rule: groupThousands.induct)
  case (1 ds)
  show ?case
  proof (cases "length ds \<le> 3")
    case True
    obtain d xs where ds: "ds = d # xs" using "1.prems"(1) by (cases ds) auto
    have "groupThousands ds = d # xs" using True ds by (subst groupThousands.simps) simp
    thus ?thesis using "1.prems"(2) ds by (auto simp add: list_all_iff)
  next
    case False
    let ?h = "take (length ds - 3) ds" and ?t = "drop (length ds - 3) ds"
    have h: "?h \<noteq> []" "list_all isDigit ?h" and t: "list_all isDigit ?t"
      using False "1.prems"(2) by (auto simp add: list_all_iff dest: in_set_takeD in_set_dropD)
    from "1.IH"[OF False h] obtain d xs where g: "groupThousands ?h = d # xs" "isDigit d"
      "list_all (\<lambda>c. isDigit c \<or> c = CHR '','') xs" by blast
    have "groupThousands ds = d # (xs @ '','' @ ?t)"
      using False g(1) by (subst groupThousands.simps) simp
    moreover have "list_all (\<lambda>c. isDigit c \<or> c = CHR '','') (xs @ '','' @ ?t)"
      using g(3) t by (auto simp add: list_all_iff)
    ultimately show ?thesis using g(2) by blast
  qed
qed

lemma scan_grouped:
  "list_all (\<lambda>c. isDigit c \<or> c = CHR '','') xs \<Longrightarrow> scan IntPart xs = Some IntPart"
  by (induction xs) auto

lemma replaceNarrowSpace_id: "CHR 0xE2 \<notin> set xs \<Longrightarrow> replaceNarrowSpace xs = xs"
  by (induction xs rule: replaceNarrowSpace.induct) auto

lemma split_none: "c \<notin> set xs \<Longrightarrow> split c xs = [xs]"
  by (induction xs) auto

lemma split_first: "c \<notin> set xs \<Longrightarrow> split c (xs @ c # ys) = xs # split c ys"
  by (induction xs) auto

subsection \<open>The integer part\<close>

lemma parseInt10_digits:
  assumes "I \<noteq> []" "list_all isDigit I" "rest = [] \<or> \<not> isDigit (hd rest)"
  shows "parseInt10 (signPrefix s @ I @ rest) = fl s (of_nat (decimalValue I))"
proof -
  obtain d I' where I: "I = d # I'" using assms(1) by (cases I) auto
  have d: "isDigit d" using assms(2) I by simp
  have tw: "takeWhile isDigit (I @ rest) = I"
  proof (cases rest)
    case Nil thus ?thesis using assms(2) by (simp add: takeWhile_digits)
  next
    case (Cons r rs)
    hence "\<not> isDigit r" using assms(3) by simp
    thus ?thesis using assms(2) Cons by (simp add: takeWhile_tail list_all_iff)
  qed
  show ?thesis
  proof (cases s)
    case True
    have "parseInt10 (CHR ''-'' # I @ rest) = fl True (of_nat (decimalValue I))"
      using tw assms(1) by (simp add: parseInt10_def isWhiteSpace_def isSignChar_def)
    thus ?thesis using True by (simp add: signPrefix_def)
  next
    case False
    have "parseInt10 (d # I' @ rest) = fl False (of_nat (decimalValue I))"
      using tw d assms(1) unfolding I
      by (simp add: parseInt10_def isDigit_not_special)
    thus ?thesis using False by (simp add: signPrefix_def I)
  qed
qed

lemma toLocaleString_nat:
  "toLocaleString (Finite s (of_nat N)) = signPrefix s @ groupThousands (digitsOf N)"
proof -
  have "\<lfloor>(of_nat N :: rat) * 1000 + 1 / 2\<rfloor> = int (N * 1000)"
    by (rule floor_unique) simp_all
  hence "nat \<lfloor>(of_nat N :: rat) * 1000 + 1 / 2\<rfloor> = N * 1000" by simp
  thus ?thesis by (simp add: Let_def)
qed

lemma formattedInteger_shape:
  assumes "I \<noteq> []" "list_all isDigit I" "length I \<le> 15" "rest = [] \<or> \<not> isDigit (hd rest)"
  shows "\<exists>g. replaceNarrowSpace (toLocaleString (parseInt10 (signPrefix s @ I @ rest))) = g
           \<and> scan Start g = Some IntPart"
proof -
  let ?N = "decimalValue I"
  have "?N < 10 ^ length I" using assms(2) by (rule decimalValue_less)
  also have "\<dots> \<le> (10::nat) ^ 15" using assms(3) by (intro power_increasing) simp_all
  also have "\<dots> < 2 ^ 53" by simp
  finally have N: "?N < 2 ^ 53" .
  have p: "parseInt10 (signPrefix s @ I @ rest) = Finite s (of_nat ?N)"
    using parseInt10_digits[OF assms(1,2,4)] fl_nat[OF N] by simp
  obtain d xs where g: "groupThousands (digitsOf ?N) = d # xs" "isDigit d"
      "list_all (\<lambda>c. isDigit c \<or> c = CHR '','') xs"
    using groupThousands_shape[OF digitsOf_not_Nil digitsOf_digits] by blast
  let ?g = "signPrefix s @ d # xs"
  have "CHR 0xE2 \<notin> set ?g"
    using g(2,3) isDigit_not_E2 by (auto simp add: signPrefix_def list_all_iff)
  hence r: "replaceNarrowSpace ?g = ?g" by (rule replaceNarrowSpace_id)
  have "scan Start ?g = Some IntPart"
    using g(2,3) by (simp add: scan_sign scan_grouped isDigit_not_special)
  thus ?thesis unfolding p toLocaleString_nat g(1) r by blast
qed

subsection \<open>The text of a number\<close>

lemma snd_if: "(c \<Longrightarrow> snd x \<in> X) \<Longrightarrow> (\<not> c \<Longrightarrow> snd y \<in> X) \<Longrightarrow> snd (if c then x else y) \<in> X"
  by simp

lemma shortestFrom_snd: "snd (shortestFrom a n0 k) \<in> {n0, n0 + 1}"
proof (induction a n0 k rule: shortestFrom.induct)
  case (1 a n0 k)
  note IH = "1.IH"[OF refl refl refl refl refl refl refl]
  show ?case
    apply (subst shortestFrom.simps)
    apply (simp only: Let_def)
    apply (rule snd_if)
     apply (rule snd_if)
      apply (simp only: snd_conv insert_iff simp_thms)
     apply (simp only: snd_conv insert_iff simp_thms)
    apply (erule IH)
    done
qed

lemma shortestFrom_exponent: "shortestFrom a n0 k = (m, n) \<Longrightarrow> n = n0 \<or> n = n0 + 1"
  using shortestFrom_snd[of a n0 k] by simp

lemma floorLog10_bound:
  assumes "0 < a" "a < 10 ^ 12"
  shows "floorLog 10 a \<le> 11"
proof (rule ccontr)
  assume "\<not> floorLog 10 a \<le> 11"
  hence "12 \<le> floorLog 10 a" by simp
  hence "(10::rat) powi 12 \<le> 10 powi floorLog 10 a"
    by (intro power_int_increasing) simp_all
  also have "\<dots> \<le> a" using floorLog_bounds(1)[of 10 a] assms(1) by simp
  finally show False using assms(2) by simp
qed

lemma exponentText_neg: "e < 0 \<Longrightarrow> exponentText e = CHR ''-'' # digitsOf (nat \<bar>e\<bar>)"
  by (simp add: exponentText_def)

lemma not_digit_e: "\<not> isDigit (CHR ''e'')"
  by (simp add: isDigit_def)

lemma digit_zero: "isDigit (CHR ''0'')"
  by (simp add: isDigit_def)

lemma not_digit_point: "\<not> isDigit (CHR ''.'')"
  by (simp add: isDigit_def)

lemma not_digit_plus: "\<not> isDigit (CHR ''+'')"
  by (simp add: isDigit_def)

lemma digits_without: "list_all isDigit xs \<Longrightarrow> \<not> isDigit c \<Longrightarrow> c \<notin> set xs"
  by (induction xs) auto

lemma digits_zeros: "list_all isDigit (replicate n (CHR ''0''))"
  by (induction n) (simp_all add: digit_zero)

lemma digits_take: "list_all isDigit xs \<Longrightarrow> list_all isDigit (take n xs)"
  by (auto simp add: list_all_iff dest: in_set_takeD)

lemma digits_drop: "list_all isDigit xs \<Longrightarrow> list_all isDigit (drop n xs)"
  by (auto simp add: list_all_iff dest: in_set_dropD)

lemma exponentText_no_point: "CHR ''.'' \<notin> set (exponentText e)"
  using digits_without[OF digitsOf_digits not_digit_point, of "nat \<bar>e\<bar>"]
  by (simp add: exponentText_def)

lemma renderDigits_shape:
  assumes ne: "ds \<noteq> []" and dg: "list_all isDigit ds" and n: "n \<le> 15"
  shows "\<exists>I rest. renderDigits ds n = I @ rest \<and> I \<noteq> [] \<and> list_all isDigit I \<and> length I \<le> 15
     \<and> ((CHR ''.'' \<notin> set rest \<and> (rest = [] \<or> \<not> isDigit (hd rest)))
        \<or> (\<exists>Y. rest = CHR ''.'' # Y \<and> Y \<noteq> [] \<and> CHR ''.'' \<notin> set Y
              \<and> scan FracPart Y \<in> {Some FracPart, Some ExpDigits}))"
proof -
  let ?k = "int (length ds)"
  have nopoint: "\<And>xs. list_all isDigit xs \<Longrightarrow> CHR ''.'' \<notin> set xs"
    by (rule digits_without[OF _ not_digit_point])
  consider (A) "?k \<le> n"
    | (B) "n < ?k" "0 < n"
    | (C) "n < ?k" "- 6 < n" "n \<le> 0"
    | (D) "n \<le> - 6" "?k = 1"
    | (E) "n \<le> - 6" "?k \<noteq> 1"
    by linarith
  thus ?thesis
  proof cases
    case A
    let ?I = "ds @ replicate (nat (n - ?k)) (CHR ''0'')"
    have r: "renderDigits ds n = ?I @ []"
      using A n by (simp add: renderDigits_def)
    have "list_all isDigit ?I" using dg by (simp add: digits_zeros)
    moreover have "length ?I \<le> 15" using A n by simp
    moreover have "?I \<noteq> []" using ne by simp
    ultimately show ?thesis
      by (intro exI[of _ ?I] exI[of _ "[]"]) (simp add: r)
  next
    case B
    let ?I = "take (nat n) ds" and ?Y = "drop (nat n) ds"
    have r: "renderDigits ds n = ?I @ CHR ''.'' # ?Y"
      using B n by (simp add: renderDigits_def)
    have I: "?I \<noteq> []" "list_all isDigit ?I" "length ?I \<le> 15"
      using B n ne dg by (simp_all add: digits_take)
    have Y: "?Y \<noteq> []" "list_all isDigit ?Y"
      using B dg by (simp_all add: digits_drop)
    have "scan FracPart ?Y = Some FracPart" using Y(2) by (rule scan_digits)
    thus ?thesis using I Y(1) nopoint[OF Y(2)]
      by (intro exI[of _ ?I] exI[of _ "CHR ''.'' # ?Y"]) (simp add: r)
  next
    case C
    let ?Y = "replicate (nat (- n)) (CHR ''0'') @ ds"
    have r: "renderDigits ds n = ''0'' @ CHR ''.'' # ?Y"
      using C by (simp add: renderDigits_def)
    have Y: "?Y \<noteq> []" "list_all isDigit ?Y"
      using ne dg by (simp_all add: digits_zeros)
    have "scan FracPart ?Y = Some FracPart" using Y(2) by (rule scan_digits)
    thus ?thesis using Y(1) nopoint[OF Y(2)]
      by (intro exI[of _ "''0''"] exI[of _ "CHR ''.'' # ?Y"]) (simp add: r digit_zero)
  next
    case D
    let ?rest = "CHR ''e'' # exponentText (n - 1)"
    have r: "renderDigits ds n = ds @ ?rest"
      using D by (simp add: renderDigits_def)
    have "CHR ''.'' \<notin> set ?rest" using exponentText_no_point by simp
    moreover have "\<not> isDigit (hd ?rest)" using not_digit_e by simp
    moreover have "length ds \<le> 15" using D by simp
    ultimately show ?thesis using ne dg
      by (intro exI[of _ ds] exI[of _ ?rest]) (simp add: r)
  next
    case E
    let ?E = "digitsOf (nat \<bar>n - 1\<bar>)"
    let ?Y = "drop 1 ds @ CHR ''e'' # CHR ''-'' # ?E"
    let ?I = "take 1 ds"
    have ex: "exponentText (n - 1) = CHR ''-'' # ?E"
      using E by (intro exponentText_neg) simp
    have r: "renderDigits ds n = ?I @ CHR ''.'' # ?Y"
      using E by (simp add: renderDigits_def ex)
    have I: "?I \<noteq> []" "list_all isDigit ?I" "length ?I \<le> 15"
      using ne dg by (simp_all add: digits_take)
    have d: "list_all isDigit (drop 1 ds)"
      using dg by (rule digits_drop)
    have "scan FracPart ?Y = Some ExpDigits"
      using scan_digits(2)[OF d] scan_digits_first(4)[OF digitsOf_not_Nil digitsOf_digits, of "nat \<bar>n - 1\<bar>"]
      by (simp add: scan_append not_digit_e)
    moreover have "CHR ''.'' \<notin> set ?Y"
      using nopoint[OF d] nopoint[OF digitsOf_digits, of "nat \<bar>n - 1\<bar>"] by simp
    ultimately show ?thesis using I
      by (intro exI[of _ ?I] exI[of _ "CHR ''.'' # ?Y"]) (simp add: r)
  qed
qed

lemma toExponential6_shape:
  assumes "a \<noteq> 0"
  shows "numberText (removeFirstPlus (toExponential6 (Finite s a)))"
proof -
  define e0 where "e0 = floorLog 10 a"
  define n where "n = nat \<lfloor>a / 10 powi (e0 - 6) + 1 / 2\<rfloor>"
  define m where "m = (if n = 10 ^ 7 then 10 ^ 6 else n)"
  define e where "e = (if n = 10 ^ 7 then e0 + 1 else e0)"
  define ds where "ds = digitsOf m"
  define E where "E = digitsOf (nat \<bar>e\<bar>)"
  let ?head = "signPrefix s @ take 1 ds @ ''.'' @ drop 1 ds @ ''e''"
  have t: "toExponential6 (Finite s a) = ?head @ exponentText e"
    using assms by (simp add: Let_def e0_def n_def m_def e_def ds_def)
  have ds: "ds \<noteq> []" "list_all isDigit ds"
    unfolding ds_def by (rule digitsOf_not_Nil, rule digitsOf_digits)
  have E: "E \<noteq> []" "list_all isDigit E"
    unfolding E_def by (rule digitsOf_not_Nil, rule digitsOf_digits)
  have I: "take 1 ds \<noteq> []" "list_all isDigit (take 1 ds)" and F: "list_all isDigit (drop 1 ds)"
    using ds by (simp_all add: digits_take digits_drop)
  have noplus: "\<And>xs. list_all isDigit xs \<Longrightarrow> CHR ''+'' \<notin> set xs"
    by (rule digits_without[OF _ not_digit_plus])
  have hp: "CHR ''+'' \<notin> set ?head"
    using noplus[OF I(2)] noplus[OF F] by (simp add: signPrefix_def)
  have sh: "scan Start ?head = Some ExpMark"
    using scan_digits_first(1,2)[OF I] scan_digits(2)[OF F]
    by (cases s) (simp_all add: scan_append signPrefix_def not_digit_e not_digit_point)
  have tail: "\<exists>x. remove1 (CHR ''+'') (exponentText e) = x \<and> scan ExpMark x = Some ExpDigits"
  proof (cases "e < 0")
    case True
    have "remove1 (CHR ''+'') (exponentText e) = CHR ''-'' # E"
      using True noplus[OF E(2)] by (simp add: exponentText_def E_def remove1_idem)
    moreover have "scan ExpMark (CHR ''-'' # E) = Some ExpDigits"
      using scan_digits_first(4)[OF E] by simp
    ultimately show ?thesis by simp
  next
    case False
    have "remove1 (CHR ''+'') (exponentText e) = E"
      using False by (simp add: exponentText_def E_def)
    moreover have "scan ExpMark E = Some ExpDigits"
      using scan_digits_first(3)[OF E] by simp
    ultimately show ?thesis by simp
  qed
  then obtain x where x: "remove1 (CHR ''+'') (exponentText e) = x" "scan ExpMark x = Some ExpDigits"
    by blast
  have "removeFirstPlus (toExponential6 (Finite s a)) = ?head @ x"
    unfolding t removeFirstPlus_def using hp x(1) by (simp only: remove1_append if_False)
  thus ?thesis
    using sh x(2) by (simp only: numberText_def scan_append) simp
qed

subsection \<open>The text that formatNumber builds\<close>

lemma num_1e_9_value:
  "num_1e_9 = Finite False (4835703278458517 / 4835703278458516698824704)"
  by (simp add: num_1e_9_def fl_eval)

lemma assemble_shape:
  assumes I: "I \<noteq> []" "list_all isDigit I" "length I \<le> 15"
    and rest: "(CHR ''.'' \<notin> set rest \<and> (rest = [] \<or> \<not> isDigit (hd rest)))
        \<or> (\<exists>Y. rest = CHR ''.'' # Y \<and> Y \<noteq> [] \<and> CHR ''.'' \<notin> set Y
              \<and> scan FracPart Y \<in> {Some FracPart, Some ExpDigits})"
  shows "numberText
     (let parts = split (CHR ''.'') (signPrefix s @ I @ rest);
          integerPart = (case parts of [] \<Rightarrow> ''undefined'' | p # ps \<Rightarrow> p);
          decimalPart = (case parts of p # d # ps \<Rightarrow> Some d | _ \<Rightarrow> None);
          formattedInteger = replaceNarrowSpace (toLocaleString (parseInt10 integerPart))
      in case decimalPart of
           None \<Rightarrow> formattedInteger
         | Some d \<Rightarrow>
             if d = [] then formattedInteger
             else formattedInteger @ ''.'' @ d)"
proof (rule disjE[OF rest])
  assume a: "CHR ''.'' \<notin> set rest \<and> (rest = [] \<or> \<not> isDigit (hd rest))"
  have "CHR ''.'' \<notin> set (signPrefix s @ I @ rest)"
    using a digits_without[OF I(2) not_digit_point] by (simp add: signPrefix_def)
  hence sp: "split (CHR ''.'') (signPrefix s @ I @ rest) = [signPrefix s @ I @ rest]"
    by (rule split_none)
  from a have "rest = [] \<or> \<not> isDigit (hd rest)" ..
  from formattedInteger_shape[OF I this, of s]
  have "scan Start (replaceNarrowSpace (toLocaleString (parseInt10 (signPrefix s @ I @ rest))))
      = Some IntPart" by simp
  thus ?thesis unfolding sp Let_def by (simp add: numberText_def)
next
  assume "\<exists>Y. rest = CHR ''.'' # Y \<and> Y \<noteq> [] \<and> CHR ''.'' \<notin> set Y
              \<and> scan FracPart Y \<in> {Some FracPart, Some ExpDigits}"
  then obtain Y where Y: "rest = CHR ''.'' # Y" "Y \<noteq> []" "CHR ''.'' \<notin> set Y"
      "scan FracPart Y \<in> {Some FracPart, Some ExpDigits}" by blast
  have "CHR ''.'' \<notin> set (signPrefix s @ I)"
    using digits_without[OF I(2) not_digit_point] by (simp add: signPrefix_def)
  hence "split (CHR ''.'') ((signPrefix s @ I) @ CHR ''.'' # Y) = (signPrefix s @ I) # split (CHR ''.'') Y"
    by (rule split_first)
  hence sp: "split (CHR ''.'') (signPrefix s @ I @ rest) = [signPrefix s @ I, Y]"
    using split_none[OF Y(3)] Y(1) by simp
  have "([]::string) = [] \<or> \<not> isDigit (hd [])" by simp
  from formattedInteger_shape[OF I this, of s]
  have g: "scan Start (replaceNarrowSpace (toLocaleString (parseInt10 (signPrefix s @ I))))
      = Some IntPart" by simp
  show ?thesis unfolding sp Let_def using g Y(2,4)
    by (simp add: numberText_def scan_append not_digit_point)
qed

lemma formatNumber_shape: "entryShape (formatNumber v)"
proof (cases v)
  case NaN
  thus ?thesis by (simp add: formatNumber_def entryShape_def)
next
  case (Infinity s)
  thus ?thesis by (simp add: formatNumber_def entryShape_def)
next
  case (Finite s a)
  let ?assemble = "\<lambda>str.
     (let parts = split (CHR ''.'') str;
          integerPart = (case parts of [] \<Rightarrow> ''undefined'' | p # ps \<Rightarrow> p);
          decimalPart = (case parts of p # d # ps \<Rightarrow> Some d | _ \<Rightarrow> None);
          formattedInteger = replaceNarrowSpace (toLocaleString (parseInt10 integerPart))
      in case decimalPart of
           None \<Rightarrow> formattedInteger
         | Some d \<Rightarrow>
             if d = [] then formattedInteger
             else formattedInteger @ ''.'' @ d)"
  show ?thesis
  proof (cases "a = 0")
    case True
    have c: "strictEq (Math_abs v) (num 0)"
      using Finite True by (simp add: strictEq_def num_def signedValue_def)
    have f: "formatNumber v = ?assemble (Number_toString v)"
      using Finite c by (simp add: formatNumber_def Let_def)
    have t: "Number_toString v = signPrefix False @ ''0'' @ []"
      using Finite True by (simp add: signPrefix_def)
    have "numberText (?assemble (signPrefix False @ ''0'' @ []))"
      by (rule assemble_shape) (simp_all add: digit_zero)
    thus ?thesis unfolding f t entryShape_def by blast
  next
    case False
    have ne: "\<not> strictEq (Math_abs v) (num 0)"
      using Finite False by (auto simp add: strictEq_def num_def signedValue_def)
    show ?thesis
    proof (cases "num_ge (Math_abs v) num_1e12 \<or> num_lt (Math_abs v) num_1e_9")
      case True
      hence "formatNumber v = removeFirstPlus (toExponential6 v)"
        using Finite ne by (simp add: formatNumber_def Let_def)
      thus ?thesis
        using toExponential6_shape[OF False, of s] Finite by (simp add: entryShape_def)
    next
      case range: False
      have f: "formatNumber v = ?assemble (Number_toString v)"
        using Finite range by (simp add: formatNumber_def Let_def)
      have hi: "a < 10 ^ 12"
        using range Finite by (simp add: num_ge_def num_1e12_def signedValue_def)
      have "\<not> a < 4835703278458517 / 4835703278458516698824704"
        using range Finite by (simp add: num_1e_9_value signedValue_def)
      hence lo: "0 < a" by linarith
      obtain m n where mn: "shortestDigits a = (m, n)" by (cases "shortestDigits a") auto
      have "n = floorLog 10 a + 1 \<or> n = floorLog 10 a + 1 + 1"
        using mn unfolding shortestDigits_def by (rule shortestFrom_exponent)
      hence n: "n \<le> 15" using floorLog10_bound[OF lo hi] by linarith
      have t: "Number_toString v = signPrefix s @ renderDigits (digitsOf m) n"
        using Finite False mn by simp
      from renderDigits_shape[OF digitsOf_not_Nil digitsOf_digits n, of m]
      obtain I rest where r: "renderDigits (digitsOf m) n = I @ rest" "I \<noteq> []"
        "list_all isDigit I" "length I \<le> 15"
        "(CHR ''.'' \<notin> set rest \<and> (rest = [] \<or> \<not> isDigit (hd rest)))
          \<or> (\<exists>Y. rest = CHR ''.'' # Y \<and> Y \<noteq> [] \<and> CHR ''.'' \<notin> set Y
                \<and> scan FracPart Y \<in> {Some FracPart, Some ExpDigits})"
        by blast
      have "numberText (?assemble (signPrefix s @ I @ rest))"
        using r(2-5) by (rule assemble_shape)
      thus ?thesis unfolding f t r(1) entryShape_def by blast
    qed
  qed
qed

subsection \<open>The entry through the handlers\<close>

lemma isNumericEntry_chars:
  assumes "isNumericEntry str" "c \<in> set str"
  shows "isDigit c \<or> c = CHR '','' \<or> c = CHR ''-'' \<or> c = CHR ''.''"
proof -
  define v where "v = removeCommas str"
  define u where "u = (if take 1 v = ''-'' then drop 1 v else v)"
  define r where "r = dropWhile isDigit u"
  have n: "r = [] \<or> (take 1 r = ''.'' \<and> list_all isDigit (drop 1 r))"
    using assms(1) unfolding isNumericEntry_def Let_def v_def[symmetric] u_def[symmetric]
      r_def[symmetric] by blast
  have uc: "isDigit c \<or> c = CHR ''.''" if "c \<in> set u"
  proof -
    have "u = takeWhile isDigit u @ r" by (simp add: r_def)
    hence "c \<in> set (takeWhile isDigit u) \<or> c \<in> set r"
      using that by (metis Un_iff set_append)
    thus ?thesis
    proof
      assume "c \<in> set (takeWhile isDigit u)"
      thus ?thesis by (auto dest: set_takeWhileD)
    next
      assume c: "c \<in> set r"
      hence "r \<noteq> []" by auto
      hence t: "take 1 r = ''.''" and d: "list_all isDigit (drop 1 r)" using n by blast+
      have "r = take 1 r @ drop 1 r" by simp
      hence "c \<in> set (take 1 r) \<or> c \<in> set (drop 1 r)"
        using c by (metis Un_iff set_append)
      thus ?thesis using t d by (auto simp add: list_all_iff)
    qed
  qed
  have vc: "c = CHR ''-'' \<or> c \<in> set u" if "c \<in> set v"
  proof (cases "take 1 v = ''-''")
    case True
    have "v = take 1 v @ drop 1 v" by simp
    hence "c \<in> set (take 1 v) \<or> c \<in> set (drop 1 v)"
      using that by (metis Un_iff set_append)
    thus ?thesis using True by (auto simp add: u_def)
  next
    case False thus ?thesis using that by (simp add: u_def)
  qed
  show ?thesis
  proof (cases "c = CHR '',''")
    case True thus ?thesis by simp
  next
    case False
    hence "c \<in> set v" using assms(2) by (simp add: v_def removeCommas_def)
    thus ?thesis using vc uc by blast
  qed
qed

lemma isNumericEntry_no_e: "isNumericEntry str \<Longrightarrow> CHR ''e'' \<notin> set str"
  using isNumericEntry_chars[of str "CHR ''e''"] not_digit_e by auto

lemma numeric_numberText:
  assumes "entryShape str" "isNumericEntry str"
  shows "numberText str"
  using assms not_numeric_sentinels by (auto simp add: entryShape_def)

lemma label_digit: "\<exists>c. label d = [c] \<and> isDigit c"
  by (cases d) (simp_all add: isDigit_def)

lemma numberText_digit: "isDigit c \<Longrightarrow> numberText [c]"
  by (simp add: numberText_def isDigit_not_special)

lemma handleDigitPress_shape:
  assumes "entryShape (displayValue s)"
  shows "entryShape (displayValue (handleDigitPress (label d) s))"
proof -
  obtain c where c: "label d = [c]" "isDigit c" using label_digit by blast
  have one: "entryShape [c]" using numberText_digit[OF c(2)] by (simp add: entryShape_def)
  show ?thesis
  proof (cases "\<not> isNumericEntry (displayValue s) \<or> waitingForOperand s \<or> displayValue s = ''0''")
    case True
    hence "displayValue (handleDigitPress (label d) s) = [c]"
      by (auto simp add: handleDigitPress_def Let_def c(1))
    thus ?thesis using one by simp
  next
    case False
    hence "displayValue (handleDigitPress (label d) s) = displayValue s @ [c]"
      by (auto simp add: handleDigitPress_def Let_def c(1))
    moreover have "numberText (displayValue s @ [c])"
      using numeric_numberText[OF assms] False c(2) by (intro numberText_snoc_digit) simp_all
    ultimately show ?thesis by (simp add: entryShape_def)
  qed
qed

lemma numberText_zero_point: "numberText ''0.''"
  by (simp add: numberText_def isDigit_def)

lemma numberText_zero: "numberText ''0''"
  by (simp add: numberText_def isDigit_def)

lemma handleDecimalPress_shape:
  assumes "entryShape (displayValue s)"
  shows "entryShape (displayValue (handleDecimalPress s))"
proof (cases "\<not> isNumericEntry (displayValue s) \<or> waitingForOperand s")
  case True
  hence "displayValue (handleDecimalPress s) = ''0.''"
    by (auto simp add: handleDecimalPress_def Let_def)
  thus ?thesis using numberText_zero_point by (simp add: entryShape_def)
next
  case False
  hence num: "isNumericEntry (displayValue s)" and w: "\<not> waitingForOperand s" by simp_all
  show ?thesis
  proof (cases "CHR ''.'' \<in> set (displayValue s)")
    case True
    hence "handleDecimalPress s = s"
      using num w by (simp add: handleDecimalPress_def Let_def)
    thus ?thesis using assms by simp
  next
    case np: False
    have d: "displayValue (handleDecimalPress s) = displayValue s @ ''.''"
      using num w np by (simp add: handleDecimalPress_def Let_def)
    have "numberText (displayValue s)" using assms num by (rule numeric_numberText)
    then obtain q where q: "scan Start (displayValue s) = Some q"
      "q \<in> {IntPart, FracPart, ExpDigits}" by (auto simp add: numberText_def)
    have "q \<in> {Start, AfterSign, IntPart}"
      using scan_no_point[OF q(1) np] by simp
    hence "q = IntPart" using q(2) by auto
    hence "scan Start (displayValue s @ ''.'') = Some FracPart"
      using q(1) by (simp add: scan_append not_digit_point)
    thus ?thesis unfolding d by (simp add: entryShape_def numberText_def)
  qed
qed

lemma handleBackspace_shape:
  assumes "entryShape (displayValue s)"
  shows "entryShape (displayValue (handleBackspace s))"
proof -
  let ?prev = "displayValue s" and ?next = "butlast (displayValue s)"
  have zero: "entryShape ''0''" using numberText_zero by (simp add: entryShape_def)
  show ?thesis
  proof (cases "\<not> isNumericEntry ?prev \<or> length ?prev \<le> 1 \<or> ?next = ''-'' \<or> ?next = []")
    case True
    hence "displayValue (handleBackspace s) = ''0''"
      by (auto simp add: handleBackspace_def Let_def)
    thus ?thesis using zero by simp
  next
    case False
    hence num: "isNumericEntry ?prev" and len: "1 < length ?prev"
      and nm: "?next \<noteq> ''-''" and nn: "?next \<noteq> []" by simp_all
    have d: "displayValue (handleBackspace s) = ?next"
      using False by (auto simp add: handleBackspace_def Let_def)
    have ne: "?prev \<noteq> []" using len by auto
    hence ap: "?prev = ?next @ [last ?prev]" by simp
    have "numberText ?prev" using assms num by (rule numeric_numberText)
    then obtain r where r: "scan Start ?prev = Some r" by (auto simp add: numberText_def)
    hence "scan Start (?next @ [last ?prev]) = Some r" using ap by simp
    then obtain q where q: "scan Start ?next = Some q" using scan_prefix by blast
    have "CHR ''e'' \<notin> set ?prev" using num by (rule isNumericEntry_no_e)
    hence "CHR ''e'' \<notin> set ?next" by (auto dest: in_set_butlastD)
    hence "q \<in> {Start, AfterSign, IntPart, FracPart}"
      using scan_no_e[OF q] by simp
    moreover have "q \<noteq> Start" using q scan_Start nn by blast
    moreover have "q \<noteq> AfterSign" using q scan_AfterSign nm by blast
    ultimately have "q = IntPart \<or> q = FracPart" by auto
    hence "numberText ?next" using q by (auto simp add: numberText_def)
    thus ?thesis unfolding d by (simp add: entryShape_def)
  qed
qed

lemma commitValue_shape: "entryShape (displayValue (commitValue v s))"
  using formatNumber_shape[of "roundedValue v"] by (simp add: commitValue_def entryShape_def)

lemma handleOperatorPress_shape:
  assumes "entryShape (displayValue s)"
  shows "entryShape (displayValue (handleOperatorPress operator s))"
  using assms commitValue_shape formatNumber_shape
  by (auto simp add: handleOperatorPress_def Let_def split: option.splits)

lemma handleEqualsPress_shape:
  assumes "entryShape (displayValue s)"
  shows "entryShape (displayValue (handleEqualsPress s))"
  using assms commitValue_shape
  by (auto simp add: handleEqualsPress_def Let_def split: option.splits)

lemma handlePercent_shape:
  assumes "entryShape (displayValue s)"
  shows "entryShape (displayValue (handlePercent s))"
  using assms commitValue_shape
  by (auto simp add: handlePercent_def Let_def split: option.splits)

lemma handleUnaryCommand_shape:
  assumes "entryShape (displayValue s)"
  shows "entryShape (displayValue (handleUnaryCommand c s))"
proof -
  have "entryShape ''Invalid input''" by (simp add: entryShape_def)
  thus ?thesis
    using assms commitValue_shape
    by (cases c) (simp_all add: handleUnaryCommand_def Let_def)
qed

lemma handleCommand_shape:
  assumes "entryShape (displayValue s)"
  shows "entryShape (displayValue (handleCommand c s))"
proof -
  have zero: "entryShape ''0''" using numberText_zero by (simp add: entryShape_def)
  show ?thesis
    using assms zero handleEqualsPress_shape handlePercent_shape handleBackspace_shape
      handleUnaryCommand_shape
    by (cases c) (simp_all add: handleClearEntry_def handleClearAll_def)
qed

lemma handleMemoryAction_shape:
  assumes "entryShape (displayValue s)"
  shows "entryShape (displayValue (handleMemoryAction action freshId s))"
  using assms commitValue_shape
  by (cases action) (simp_all add: handleMemoryAction_def Let_def split: list.splits)

lemma handleButtonPress_shape:
  assumes "entryShape (displayValue s)"
  shows "entryShape (displayValue (handleButtonPress a s))"
  using assms handleCommand_shape
  by (cases a)
    (simp_all only: handleButtonPress.simps handleDigitPress_shape handleDecimalPress_shape
      handleOperatorPress_shape handleMemoryAction_shape)

subsection \<open>The form of the specification and the form of the code\<close>

text \<open>
  Every entry that the specification describes has the form above: the two forms differ by
  the commas and the exponent only. The form is not met by every text.
\<close>

lemma take_one: "take 1 xs = [c] \<Longrightarrow> xs = c # drop 1 xs"
  by (cases xs) simp_all

lemma specEntry_entryShape:
  assumes "specEntry str"
  shows "entryShape str"
proof (cases "specNumberText str")
  case False
  thus ?thesis using assms unfolding specEntry_def entryShape_def by blast
next
  case True
  define u where "u = (if take 1 str = ''-'' then drop 1 str else str)"
  define ip where "ip = takeWhile isDigit u"
  define r where "r = dropWhile isDigit u"
  have n: "ip \<noteq> [] \<and> (r = [] \<or> (take 1 r = ''.'' \<and> list_all isDigit (drop 1 r)))"
    using True unfolding specNumberText_def Let_def u_def[symmetric] ip_def[symmetric]
      r_def[symmetric] by blast
  have ip: "list_all isDigit ip"
    by (auto simp add: ip_def list_all_iff dest: set_takeWhileD)
  have u: "u = ip @ r" by (simp add: ip_def r_def)
  have tail: "scan IntPart r \<in> {Some IntPart, Some FracPart}"
  proof (cases "r = []")
    case True thus ?thesis by simp
  next
    case False
    hence t: "take 1 r = ''.''" and d: "list_all isDigit (drop 1 r)" using n by blast+
    have "r = CHR ''.'' # drop 1 r" using t by (rule take_one)
    hence "scan IntPart r = scan IntPart (CHR ''.'' # drop 1 r)" by simp
    hence "scan IntPart r = scan FracPart (drop 1 r)"
      by (simp add: not_digit_point)
    thus ?thesis using scan_digits(2)[OF d] by simp
  qed
  have su: "scan Start u \<in> {Some IntPart, Some FracPart}"
    and au: "scan AfterSign u \<in> {Some IntPart, Some FracPart}"
    using scan_digits_first(1,2)[OF _ ip] n tail by (simp_all add: u scan_append)
  have "scan Start str \<in> {Some IntPart, Some FracPart}"
  proof (cases "take 1 str = ''-''")
    case True
    have "str = CHR ''-'' # drop 1 str" using True by (rule take_one)
    hence "str = CHR ''-'' # u" using True by (simp add: u_def)
    hence "scan Start str = scan Start (CHR ''-'' # u)" by simp
    hence "scan Start str = scan AfterSign u" by simp
    thus ?thesis using au by simp
  next
    case False
    thus ?thesis using su by (simp add: u_def)
  qed
  thus ?thesis by (auto simp add: entryShape_def numberText_def)
qed

lemma entryShape_rejects:
  "\<not> entryShape []" "\<not> entryShape ''-''" "\<not> entryShape '',000''" "\<not> entryShape ''1e12''"
  "\<not> entryShape ''1.5e''" "\<not> entryShape ''1.5e+21''" "\<not> entryShape ''1.2.3''"
  "\<not> entryShape ''NaN''" "\<not> entryShape ''Infinity''"
  by (simp_all add: entryShape_def numberText_def isDigit_def)

lemma trace_999_plus_1:
  "run [Digit D9, Digit D9, Digit D9, Operator Add, Digit D1, Equals] initialState =
     \<lparr>displayValue = ''1,000'', waitingForOperand = True, pendingOperator = Some Add,
      storedValue = Some (Finite False 1000), memoryEntries = [], memoryExpanded = False\<rparr>"
  by (simp add: all_eval)

lemma trace_grouping_lost:
  "displayValue (run [Digit D1, Digit D0, Digit D0, Digit D0, Negate, Digit D5] initialState)
     = ''-1,0005''"
  "displayValue (run [Digit D9, Digit D9, Digit D9, Operator Add, Digit D1, Equals,
                      Backspace, Backspace, Backspace] initialState) = ''1,''"
  by (simp_all add: all_eval)

lemma not_specEntry:
  "\<not> specEntry ''1,000''"
  "\<not> specEntry ''1.000000e12''"
  by (simp_all add: specEntry_def specNumberText_def isDigit_def)

lemma specEntry_1000: "specEntry ''1000''"
  by (simp add: specEntry_def specNumberText_def isDigit_def)


section \<open>Properties of the calculator\<close>

text \<open>
  C1 (as the code has it). From the initial state, \<open>2 + 3 =\<close> shows \<open>5\<close> and stores the
  result 5 as the left operand. A second \<open>=\<close> applies the pending operator to the stored 5
  and the displayed 5 and shows \<open>10\<close>: the right operand 3 is not kept anywhere.
\<close>

theorem C1_repeated_equals:
  "displayValue (run [Digit D2, Operator Add, Digit D3, Equals] initialState) = ''5''
   \<and> display (run [Digit D2, Operator Add, Digit D3, Equals] initialState) = ''5''
   \<and> storedValue (run [Digit D2, Operator Add, Digit D3, Equals] initialState) = Some (num 5)
   \<and> displayValue (run [Digit D2, Operator Add, Digit D3, Equals, Equals] initialState) = ''10''
   \<and> display (run [Digit D2, Operator Add, Digit D3, Equals, Equals] initialState) = ''10''"
  by (simp add: trace_2_plus_3 trace_2_plus_3_again display_def formattedDisplay_5_10 num_def)

text \<open>C1 as stated fails: the second \<open>=\<close> does not show \<open>8\<close>.\<close>

theorem C1_second_equals_is_not_8:
  "displayValue (run [Digit D2, Operator Add, Digit D3, Equals, Equals] initialState) \<noteq> ''8''"
  by (simp add: trace_2_plus_3_again)

text \<open>
  C3. From the initial state, \<open>5 \<div> 0 =\<close> gives the entry \<open>Cannot divide by zero\<close> with
  the stored operand and the pending operator cleared. In that state every operator, Equals,
  Percent and every unary action leave the state unchanged, and after \<open>+\<close> the digit 1 gives
  the entry and the display \<open>1\<close> with nothing of the error left.
\<close>

theorem C3_divide_by_zero:
  "displayValue divByZeroState = ''Cannot divide by zero''
   \<and> storedValue divByZeroState = None
   \<and> pendingOperator divByZeroState = None
   \<and> (\<forall>operator. handleButtonPress (Operator operator) divByZeroState = divByZeroState)
   \<and> handleButtonPress Equals divByZeroState = divByZeroState
   \<and> handleButtonPress Percent divByZeroState = divByZeroState
   \<and> handleButtonPress Negate divByZeroState = divByZeroState
   \<and> handleButtonPress Reciprocal divByZeroState = divByZeroState
   \<and> handleButtonPress Square divByZeroState = divByZeroState
   \<and> handleButtonPress SquareRoot divByZeroState = divByZeroState
   \<and> run [Operator Add, Digit D1] divByZeroState =
       \<lparr>displayValue = ''1'', waitingForOperand = False, pendingOperator = None,
        storedValue = None, memoryEntries = [], memoryExpanded = False\<rparr>
   \<and> display (run [Operator Add, Digit D1] divByZeroState) = ''1''"
  unfolding divByZeroState_def trace_5_div_0
  by (simp add: all_eval)

text \<open>
  C6. When the entry parses to a finite number, Percent commits
  \<open>storedValue * currentValue / 100\<close> if a stored operand and a pending operator are both
  present and \<open>currentValue / 100\<close> otherwise, and then sets \<open>waitingForOperand\<close>. From
  the initial state \<open>200 + 10 %\<close> shows \<open>20\<close>, and \<open>=\<close> after it shows \<open>220\<close>.
\<close>

theorem C6_percent:
  assumes "Number_isFinite (parseDisplayValue (displayValue s))"
  shows "(storedValue s = Some stored \<and> pendingOperator s = Some pending \<longrightarrow>
            handleButtonPress Percent s =
              (commitValue (num_div (num_mul stored (parseDisplayValue (displayValue s))) (num 100)) s)
              \<lparr>waitingForOperand := True\<rparr>)
         \<and> (storedValue s = None \<or> pendingOperator s = None \<longrightarrow>
            handleButtonPress Percent s =
              (commitValue (num_div (parseDisplayValue (displayValue s)) (num 100)) s)
              \<lparr>waitingForOperand := True\<rparr>)
         \<and> waitingForOperand (handleButtonPress Percent s)
         \<and> displayValue (run [Digit D2, Digit D0, Digit D0, Operator Add, Digit D1, Digit D0, Percent]
              initialState) = ''20''
         \<and> display (run [Digit D2, Digit D0, Digit D0, Operator Add, Digit D1, Digit D0, Percent]
              initialState) = ''20''
         \<and> displayValue (run [Digit D2, Digit D0, Digit D0, Operator Add, Digit D1, Digit D0, Percent,
              Equals] initialState) = ''220''
         \<and> display (run [Digit D2, Digit D0, Digit D0, Operator Add, Digit D1, Digit D0, Percent,
              Equals] initialState) = ''220''"
  using assms
  by (auto simp add: handlePercent_def Let_def trace_200_plus_10_percent
      trace_200_plus_10_percent_equals display_def formattedDisplay_20_220
      split: option.splits)

text \<open>C6 at the state after \<open>200 + 10\<close>.\<close>

theorem C6_percent_witness:
  "Number_isFinite (parseDisplayValue (displayValue
      (run [Digit D2, Digit D0, Digit D0, Operator Add, Digit D1, Digit D0] initialState)))
   \<and> storedValue (run [Digit D2, Digit D0, Digit D0, Operator Add, Digit D1, Digit D0] initialState)
       = Some (num 200)
   \<and> pendingOperator (run [Digit D2, Digit D0, Digit D0, Operator Add, Digit D1, Digit D0] initialState)
       = Some Add
   \<and> handleButtonPress Percent
        (run [Digit D2, Digit D0, Digit D0, Operator Add, Digit D1, Digit D0] initialState) =
       (commitValue (num_div (num_mul (num 200) (num 10)) (num 100))
          (run [Digit D2, Digit D0, Digit D0, Operator Add, Digit D1, Digit D0] initialState))
       \<lparr>waitingForOperand := True\<rparr>"
proof -
  let ?s = "run [Digit D2, Digit D0, Digit D0, Operator Add, Digit D1, Digit D0] initialState"
  have fin: "Number_isFinite (parseDisplayValue (displayValue ?s))"
    by (simp add: trace_200_plus_10 parse_10)
  have st: "storedValue ?s = Some (num 200)" "pendingOperator ?s = Some Add"
    by (simp_all add: trace_200_plus_10 num_def)
  have p: "parseDisplayValue (displayValue ?s) = num 10"
    by (simp add: trace_200_plus_10 parse_10 num_def)
  from C6_percent[OF fin, of "num 200" Add] st p fin show ?thesis by simp
qed





text \<open>
  C7 at the value \<open>1e-7\<close>, which lies between \<open>1e-9\<close> and \<open>1e12\<close>: its text is
  \<open>1e-7\<close>, without a decimal point, so \<open>formatNumber\<close> returns \<open>1\<close>, and \<open>1 \<div> 10000000 =\<close>
  shows \<open>1\<close>.
\<close>

theorem C7_formatNumber_of_1e_7:
  "num_ge (Math_abs (fl False (1 / 10 ^ 7))) num_1e_9
   \<and> num_lt (Math_abs (fl False (1 / 10 ^ 7))) num_1e12
   \<and> Number_toString (fl False (1 / 10 ^ 7)) = ''1e-7''
   \<and> formatNumber (fl False (1 / 10 ^ 7)) = ''1''
   \<and> displayValue (run [Digit D1, Operator Divide, Digit D1, Digit D0, Digit D0, Digit D0,
        Digit D0, Digit D0, Digit D0, Digit D0, Equals] initialState) = ''1''"
  unfolding value_1e_7 trace_1_div_1e7 toString_1e_7 format_1e_7
  using range_1e_7 by simp

text \<open>
  C9 at the value \<open>9.99999999e-10\<close>: it is formatted as \<open>1.000000e-9\<close>, which parses to
  \<open>1e-9\<close>, and that is formatted as \<open>1\<close>.
\<close>

theorem C9_format_parse_format:
  "formatNumber (fl False (999999999 / 10 ^ 18)) = ''1.000000e-9''
   \<and> parseDisplayValue (formatNumber (fl False (999999999 / 10 ^ 18))) = num_1e_9
   \<and> formatNumber (parseDisplayValue (formatNumber (fl False (999999999 / 10 ^ 18)))) = ''1''
   \<and> formatNumber (parseDisplayValue (formatNumber (fl False (999999999 / 10 ^ 18))))
       \<noteq> formatNumber (fl False (999999999 / 10 ^ 18))"
proof -
  have "num_1e_9 = Finite False (4835703278458517 / 4835703278458516698824704)"
    by (simp add: all_eval)
  thus ?thesis
    unfolding value_below_1e_9 format_below_1e_9 parse_1e_9 format_1e_9 by simp
qed

text \<open>
  C2 as stated fails at \<open>v = -32769 / 8192 = -4.0001220703125\<close>: the scaled value is exactly
  \<open>-4000122070312.5\<close>, \<^verbatim>\<open>Math.round\<close> takes it to \<open>-4000122070312\<close>, and the committed entry
  is \<open>-4.000122070312\<close>, where rounding half away from zero gives \<open>-4.000122070313\<close>.
\<close>

theorem C2_negative_tie:
  "Number_isFinite (Finite True (32769 / 8192))
   \<and> num_mul (num_add (Finite True (32769 / 8192)) Number_EPSILON) num_1e12
       = Finite True (8000244140625 / 2)
   \<and> displayValue (commitValue (Finite True (32769 / 8192)) initialState) = ''-4.000122070312''
   \<and> committedEntrySpec (Finite True (32769 / 8192)) = ''-4.000122070313''
   \<and> displayValue (commitValue (Finite True (32769 / 8192)) initialState)
       \<noteq> committedEntrySpec (Finite True (32769 / 8192))"
  unfolding commitValue_def roundedValue_def committedEntrySpec_def scaled_tie code_rounding
    spec_rounding format_code_rounding format_spec_rounding
  by (simp add: initialState_def)

text \<open>
  C2 (as the code has it). For every finite \<open>v\<close>, \<open>commitValue\<close> changes only the entry, to
  the formatted \<^verbatim>\<open>Math.round((v + Number.EPSILON) * 1e12) / 1e12\<close>; and \<^verbatim>\<open>Math.round\<close> sends a
  tie \<open>k + 1/2\<close> to \<open>k + 1\<close>, the integer closer to plus infinity, for positive and negative
  \<open>k\<close> alike.
\<close>

theorem C2_commit_rounding:
  assumes "Number_isFinite v"
  shows "commitValue v s =
           s\<lparr>displayValue :=
               formatNumber
                 (num_div (Math_round (num_mul (num_add v Number_EPSILON) num_1e12)) num_1e12)\<rparr>
         \<and> (signedValue t a = of_int k + 1 / 2 \<longrightarrow>
              (\<exists>t' a'. Math_round (Finite t a) = Finite t' a'
                        \<and> signedValue t' a' = of_int (k + 1)))"
proof -
  have "signedValue t a = of_int k + 1 / 2 \<Longrightarrow>
      \<lfloor>signedValue t a + 1 / 2\<rfloor> = k + 1"
    by simp
  thus ?thesis
    using assms Math_round_value[of t a]
    by (auto simp add: commitValue_def roundedValue_def)
qed

text \<open>C2 at \<open>v = 5\<close>, and the tie \<open>-2.5\<close>, which goes to \<open>-2\<close>.\<close>

theorem C2_commit_rounding_witness:
  "Number_isFinite (num 5)
   \<and> commitValue (num 5) initialState = initialState\<lparr>displayValue := ''5''\<rparr>
   \<and> signedValue True (5 / 2) = of_int (- 3) + 1 / 2
   \<and> Math_round (Finite True (5 / 2)) = Finite True 2
   \<and> signedValue True 2 = of_int (- 3 + 1)"
proof -
  have fin: "Number_isFinite (num 5)" by (simp add: num_def)
  have tie: "signedValue True (5 / 2) = of_int (- 3) + 1 / 2"
    by (simp add: signedValue_def)
  from C2_commit_rounding[OF fin, of initialState True "5 / 2" "- 3"] tie
  have "commitValue (num 5) initialState =
      initialState\<lparr>displayValue := formatNumber (roundedValue (num 5))\<rparr>"
    by (simp add: roundedValue_def)
  thus ?thesis
    using fin tie round_minus_5_halves commit_5 by (simp add: num_def signedValue_def)
qed


text \<open>
  C5 (as the code has it). When \<open>waitingForOperand\<close> is true, a pending operator and a stored
  operand exist and the entry parses to a finite number, pressing an operator only replaces the
  pending operator: nothing is recomputed, and the stored operand and the entry stay. From the
  initial state \<open>5 + \<times> 3 =\<close> shows \<open>15\<close>.
\<close>

theorem C5_operator_replaces_pending:
  assumes "waitingForOperand s" "pendingOperator s = Some pending" "storedValue s = Some stored"
    and "Number_isFinite (parseDisplayValue (displayValue s))"
  shows "handleButtonPress (Operator operator) s = s\<lparr>pendingOperator := Some operator\<rparr>
         \<and> displayValue (run [Digit D5, Operator Add, Operator Multiply, Digit D3, Equals]
              initialState) = ''15''
         \<and> display (run [Digit D5, Operator Add, Operator Multiply, Digit D3, Equals]
              initialState) = ''15''"
  using assms
  by (simp add: handleOperatorPress_def trace_5_plus_times_3 display_def formattedDisplay_15)

text \<open>C5 at the state after \<open>5 +\<close>.\<close>

theorem C5_operator_replaces_pending_witness:
  "waitingForOperand (run [Digit D5, Operator Add] initialState)
   \<and> pendingOperator (run [Digit D5, Operator Add] initialState) = Some Add
   \<and> storedValue (run [Digit D5, Operator Add] initialState) = Some (num 5)
   \<and> Number_isFinite (parseDisplayValue (displayValue (run [Digit D5, Operator Add] initialState)))
   \<and> handleButtonPress (Operator Multiply) (run [Digit D5, Operator Add] initialState)
       = (run [Digit D5, Operator Add] initialState)\<lparr>pendingOperator := Some Multiply\<rparr>"
proof -
  let ?s = "run [Digit D5, Operator Add] initialState"
  have a: "waitingForOperand ?s" "pendingOperator ?s = Some Add"
    "storedValue ?s = Some (Finite False 5)"
    "Number_isFinite (parseDisplayValue (displayValue ?s))"
    by (simp_all add: trace_5_plus parse_5)
  from C5_operator_replaces_pending[OF a, of Multiply] a show ?thesis
    by (simp add: num_def)
qed

text \<open>
  C5 as stated fails at the state after \<open>1e300 \<times> 1 =\<close>: the result is finite, so the stored
  operand and the pending operator stay, but scaling it for the rounding overflows and the entry
  becomes \<open>Cannot divide by zero\<close>. There \<open>waitingForOperand\<close> is true, a pending operator and
  a stored operand exist, and pressing \<open>+\<close> does not replace the pending operator.
\<close>

theorem C5_operator_ignored_on_error_entry:
  "waitingForOperand overflowState
   \<and> pendingOperator overflowState = Some Multiply
   \<and> storedValue overflowState = Some (Finite False double_1e300)
   \<and> handleButtonPress (Operator Add) overflowState = overflowState
   \<and> pendingOperator (handleButtonPress (Operator Add) overflowState) \<noteq> Some Add"
  unfolding overflowState_eq
  by (simp add: handleOperatorPress_def parse_sentinel)

text \<open>
  C4 as stated fails. After \<open>999 + 1 =\<close> the entry is \<open>1,000\<close>, with a grouping comma, and
  after \<open>1000000\<close> and the square it is \<open>1.000000e12\<close>, with an exponent marker: both
  states are reachable and neither entry is one that the specification describes. The commas
  are kept when the entry is edited, so they do not stay in groups of three: after
  \<open>1000\<close>, the sign change and the digit 5 the entry is \<open>-1,0005\<close>, and three backspaces
  after \<open>999 + 1 =\<close> leave \<open>1,\<close>.
\<close>

theorem C4_grouping_comma_and_exponent:
  "reachable (run [Digit D9, Digit D9, Digit D9, Operator Add, Digit D1, Equals] initialState)
   \<and> displayValue (run [Digit D9, Digit D9, Digit D9, Operator Add, Digit D1, Equals] initialState)
       = ''1,000''
   \<and> \<not> specEntry
         (displayValue (run [Digit D9, Digit D9, Digit D9, Operator Add, Digit D1, Equals] initialState))
   \<and> reachable (run [Digit D1, Digit D0, Digit D0, Digit D0, Digit D0, Digit D0, Digit D0, Square]
                  initialState)
   \<and> displayValue (run [Digit D1, Digit D0, Digit D0, Digit D0, Digit D0, Digit D0, Digit D0, Square]
                     initialState) = ''1.000000e12''
   \<and> \<not> specEntry
         (displayValue (run [Digit D1, Digit D0, Digit D0, Digit D0, Digit D0, Digit D0, Digit D0,
                             Square] initialState))
   \<and> displayValue (run [Digit D1, Digit D0, Digit D0, Digit D0, Negate, Digit D5] initialState)
       = ''-1,0005''
   \<and> displayValue (run [Digit D9, Digit D9, Digit D9, Operator Add, Digit D1, Equals,
                        Backspace, Backspace, Backspace] initialState) = ''1,''"
proof -
  have r: "\<And>as. reachable (run as initialState)"
    by (rule reachable_run[OF reachable_initial])
  have a: "displayValue (run [Digit D9, Digit D9, Digit D9, Operator Add, Digit D1, Equals] initialState)
       = ''1,000''"
    by (simp add: trace_999_plus_1)
  have b: "displayValue (run [Digit D1, Digit D0, Digit D0, Digit D0, Digit D0, Digit D0, Digit D0, Square]
                     initialState) = ''1.000000e12''"
    by (simp add: trace_million_square)
  show ?thesis
    unfolding a b using r not_specEntry trace_grouping_lost by (intro conjI) blast+
qed

text \<open>
  C4 (as the code has it). In every state reachable from the initial state by any sequence of
  actions, the entry is one of the two error sentinels, or a text of this form: an optional
  minus sign, a digit, then digits and commas, then optionally a decimal point and digits
  (possibly none), then optionally, after such a decimal point, the letter \<open>e\<close>, an optional
  minus sign and at least one digit.
\<close>

theorem C4_entry_shape:
  "reachable s \<Longrightarrow> entryShape (displayValue s)"
proof (induction rule: reachable.induct)
  case reachable_initial
  show ?case using numberText_zero by (simp add: initialState_def entryShape_def)
next
  case (reachable_step s a)
  from reachable_step.IH show ?case by (rule handleButtonPress_shape)
qed

text \<open>
  C4 at the state after \<open>999 + 1 =\<close>, whose entry \<open>1,000\<close> has the form, and at the state
  after \<open>1000000\<close> and the square, whose entry is \<open>1.000000e12\<close>.
\<close>

theorem C4_entry_shape_witness:
  "reachable (run [Digit D9, Digit D9, Digit D9, Operator Add, Digit D1, Equals] initialState)
   \<and> entryShape ''1,000''
   \<and> reachable (run [Digit D1, Digit D0, Digit D0, Digit D0, Digit D0, Digit D0, Digit D0, Square]
                  initialState)
   \<and> entryShape ''1.000000e12''"
proof -
  let ?s = "run [Digit D9, Digit D9, Digit D9, Operator Add, Digit D1, Equals] initialState"
  let ?t = "run [Digit D1, Digit D0, Digit D0, Digit D0, Digit D0, Digit D0, Digit D0, Square]
              initialState"
  have r: "reachable ?s" and q: "reachable ?t"
    by (rule reachable_run[OF reachable_initial])+
  have a: "displayValue ?s = ''1,000''" by (simp add: trace_999_plus_1)
  have b: "displayValue ?t = ''1.000000e12''" by (simp add: trace_million_square)
  from C4_entry_shape[OF r] C4_entry_shape[OF q] r q show ?thesis
    unfolding a b by blast
qed

end
